theory Spec2Isabelle
  imports Complex_Main "HOL-Library.Multiset"
begin

section \<open>Data model of \<^verbatim>\<open>pysteps/utils/dimension.py\<close>\<close>

text \<open>
  The module manipulates numpy arrays of floating-point values together with a metadata
  dictionary. An array is modelled by its shape and its elements in row-major (C) order,
  which is the order numpy's \<^verbatim>\<open>reshape\<close> and \<^verbatim>\<open>squeeze\<close> leave untouched.
  An element is either not-a-number or a finite value; finite values are rationals, so
  the arithmetic on the elements is exact where the program rounds. The arithmetic on the
  sampling interval, the pixel sizes and the windows of the two aggregators, which decides
  the block sizes, is that of binary64 floats.
\<close>

datatype elem = NaN | Fin rat

record ndarray =
  shape :: "nat list"
  data :: "elem list"

definition wf_array :: "ndarray \<Rightarrow> bool" where
  "wf_array R \<longleftrightarrow> length (data R) = prod_list (shape R)"

text \<open>
  Values of the metadata dictionary: a number, a string, the pair stored under
  \<^verbatim>\<open>orig_domain\<close>, a list of timestamps (seconds since some epoch) and a list of
  numbers (lead times).
\<close>

datatype mval = MNum rat | MStr string | MDom nat nat | MTimes "int list" | MNums "rat list"

type_synonym metadata = "string \<Rightarrow> mval option"

text \<open>
  Every exception the module or the numpy primitives it calls can raise. All but the last
  eleven are \<^verbatim>\<open>ValueError\<close>s raised by the module itself, one constructor per message.
\<close>

datatype error =
    DimensionTooSmall
  | DimensionTooLarge
  | TimestampsLength nat nat
  | TimeWindowNoSplit
  | SpaceWindowNoSplit
  | BadUnit mval
  | WindowNoSplit int nat
  | UnknownMethod string
  | UnknownType
  | KeyError string
  | IndexError
  | TypeError
  | ZeroDivisionError
  | ReshapeError
  | EmptyReduction
  | BroadcastError
  | NegativeDimension
  | OverflowError
  | NaNConversion
  | AttributeError

text \<open>
  \<^verbatim>\<open>square_domain\<close> has return statements of two forms: \<^verbatim>\<open>return R_.squeeze(), metadata\<close>
  and \<^verbatim>\<open>return R.squeeze()\<close>.
\<close>

datatype retval = Pair ndarray metadata | Bare ndarray

definition result_array :: "retval \<Rightarrow> ndarray" where
  "result_array r = (case r of Pair R md \<Rightarrow> R | Bare R \<Rightarrow> R)"

text \<open>Statements in sequence: the first exception raised ends the call.\<close>

definition ebind :: "error + 'a \<Rightarrow> ('a \<Rightarrow> error + 'b) \<Rightarrow> error + 'b" where
  "ebind m f = (case m of Inl e \<Rightarrow> Inl e | Inr v \<Rightarrow> f v)"

subsection \<open>numpy primitives\<close>

definition full :: "nat list \<Rightarrow> elem \<Rightarrow> ndarray" where
  \<comment> \<open>\<^verbatim>\<open>np.ones(shape)*c\<close>, and \<^verbatim>\<open>np.zeros(shape)\<close> for \<open>c = Fin 0\<close>\<close>
  "full s c = \<lparr>shape = s, data = replicate (prod_list s) c\<rparr>"

definition squeeze :: "ndarray \<Rightarrow> ndarray" where
  "squeeze R = R\<lparr>shape := filter (\<lambda>d. d \<noteq> 1) (shape R)\<rparr>"

fun emin :: "elem \<Rightarrow> elem \<Rightarrow> elem" where
  "emin NaN _ = NaN"
| "emin _ NaN = NaN"
| "emin (Fin a) (Fin b) = Fin (min a b)"

definition amin :: "elem list \<Rightarrow> error + elem" where
  \<comment> \<open>\<^verbatim>\<open>R.min()\<close>: raises on an array without elements, propagates not-a-number\<close>
  "amin xs = (case xs of [] \<Rightarrow> Inl EmptyReduction | x # r \<Rightarrow> Inr (foldl emin x r))"

definition norm_idx :: "nat \<Rightarrow> int \<Rightarrow> nat" where
  \<comment> \<open>a slice bound on an axis of extent \<open>n\<close>: negative bounds count from the end,
      and the result is clipped to the axis\<close>
  "norm_idx n i = (if i < 0 then nat (max 0 (int n + i)) else min n (nat i))"

text \<open>A slice \<^verbatim>\<open>a:b\<close> is \<open>Some (a, b)\<close>; the full slice \<^verbatim>\<open>:\<close> is \<open>None\<close>.\<close>

type_synonym pyslice = "(int \<times> int) option"

definition slice_start :: "nat \<Rightarrow> pyslice \<Rightarrow> nat" where
  "slice_start n sl = (case sl of None \<Rightarrow> 0 | Some (a, b) \<Rightarrow> norm_idx n a)"

definition slice_len :: "nat \<Rightarrow> pyslice \<Rightarrow> nat" where
  "slice_len n sl = (case sl of None \<Rightarrow> n | Some (a, b) \<Rightarrow> norm_idx n b - norm_idx n a)"

definition sub23 :: "pyslice \<Rightarrow> pyslice \<Rightarrow> ndarray \<Rightarrow> ndarray" where
  \<comment> \<open>\<^verbatim>\<open>R[:, :, ys, xs]\<close> on an array of rank 4: element \<open>(m, r, c)\<close> of the result,
      \<open>m\<close> numbering the images of the two leading axes, is element
      \<open>(m, sy + r, sx + c)\<close> of \<open>R\<close>\<close>
  "sub23 ys xs R =
     (let n = shape R ! 0; t = shape R ! 1; Y = shape R ! 2; X = shape R ! 3;
          sy = slice_start Y ys; h = slice_len Y ys;
          sx = slice_start X xs; w = slice_len X xs
      in \<lparr>shape = [n, t, h, w],
          data = map (\<lambda>p. data R ! ((p div (h * w) * Y + sy + p div w mod h) * X + sx + p mod w))
                     [0..<n * t * h * w]\<rparr>)"

definition assign23 :: "pyslice \<Rightarrow> pyslice \<Rightarrow> ndarray \<Rightarrow> ndarray \<Rightarrow> error + ndarray" where
  \<comment> \<open>\<^verbatim>\<open>R_[:, :, ys, xs] = S\<close> on arrays of rank 4 that agree on the two leading axes
      (every call below builds \<open>R_\<close> from the leading extents of \<open>S\<close>); a spatial axis
      of \<open>S\<close> has the extent of its slice or is broadcast from extent 1\<close>
  "assign23 ys xs R' S =
     (let Y = shape R' ! 2; X = shape R' ! 3;
          sy = slice_start Y ys; h = slice_len Y ys;
          sx = slice_start X xs; w = slice_len X xs;
          h' = shape S ! 2; w' = shape S ! 3
      in if take 2 (shape S) \<noteq> take 2 (shape R') \<or> (h' \<noteq> h \<and> h' \<noteq> 1) \<or> (w' \<noteq> w \<and> w' \<noteq> 1)
         then Inl BroadcastError
         else Inr (R'\<lparr>data :=
           map (\<lambda>q. let m = q div (Y * X); r = q div X mod Y; c = q mod X
                    in if sy \<le> r \<and> r < sy + h \<and> sx \<le> c \<and> c < sx + w
                       then data S ! ((m * h' + (if h' = h then r - sy else 0)) * w'
                                       + (if w' = w then c - sx else 0))
                       else data R' ! q)
               [0..<length (data R')]\<rparr>))"

subsection \<open>Metadata access\<close>

definition md_get :: "metadata \<Rightarrow> string \<Rightarrow> error + mval" where
  \<comment> \<open>\<^verbatim>\<open>metadata[k]\<close>\<close>
  "md_get md k = (case md k of None \<Rightarrow> Inl (KeyError k) | Some v \<Rightarrow> Inr v)"

definition md_num :: "metadata \<Rightarrow> string \<Rightarrow> error + rat" where
  \<comment> \<open>\<^verbatim>\<open>metadata[k]\<close> used as a number; a value of another type is refused here, at the
      lookup, where the program fails at its first arithmetic use\<close>
  "md_num md k =
     (case md k of None \<Rightarrow> Inl (KeyError k) | Some (MNum v) \<Rightarrow> Inr v | Some _ \<Rightarrow> Inl TypeError)"

definition md_add :: "string \<Rightarrow> int \<Rightarrow> string \<Rightarrow> metadata \<Rightarrow> error + metadata" where
  \<comment> \<open>\<^verbatim>\<open>metadata[k] += idx_buffer*metadata[p]\<close>\<close>
  "md_add k idx_buffer p md =
     ebind (md_num md k) (\<lambda>v.
     ebind (md_num md p) (\<lambda>px.
       Inr (md(k := Some (MNum (v + of_int idx_buffer * px))))))"

definition md_sub :: "string \<Rightarrow> int \<Rightarrow> string \<Rightarrow> metadata \<Rightarrow> error + metadata" where
  \<comment> \<open>\<^verbatim>\<open>metadata[k] -= idx_buffer*metadata[p]\<close>\<close>
  "md_sub k idx_buffer p md =
     ebind (md_num md k) (\<lambda>v.
     ebind (md_num md p) (\<lambda>px.
       Inr (md(k := Some (MNum (v - of_int idx_buffer * px))))))"

definition grow :: "string \<Rightarrow> string \<Rightarrow> string \<Rightarrow> int \<Rightarrow> metadata \<Rightarrow> error + metadata" where
  \<comment> \<open>\<^verbatim>\<open>metadata[lo] -= idx_buffer*metadata[p]; metadata[hi] += idx_buffer*metadata[p]\<close>\<close>
  "grow lo hi p idx_buffer md = ebind (md_sub lo idx_buffer p md) (md_add hi idx_buffer p)"

definition shrink :: "string \<Rightarrow> string \<Rightarrow> string \<Rightarrow> int \<Rightarrow> metadata \<Rightarrow> error + metadata" where
  \<comment> \<open>\<^verbatim>\<open>metadata[lo] += idx_buffer*metadata[p]; metadata[hi] -= idx_buffer*metadata[p]\<close>\<close>
  "shrink lo hi p idx_buffer md = ebind (md_add lo idx_buffer p md) (md_sub hi idx_buffer p)"

subsection \<open>Rank promotion\<close>

definition promote :: "ndarray \<Rightarrow> error + ndarray" where
  \<comment> \<open>the four rank checks that open \<^verbatim>\<open>adjust_domain\<close> and both directions of
      \<^verbatim>\<open>square_domain\<close>: \<^verbatim>\<open>R[None, None, :]\<close> at rank 2, \<^verbatim>\<open>R[None, :]\<close> at rank 3\<close>
  "promote R =
     (if length (shape R) < 2 then Inl DimensionTooSmall
      else let R1 = (if length (shape R) = 2 then R\<lparr>shape := 1 # 1 # shape R\<rparr> else R);
               R2 = (if length (shape R1) = 3 then R1\<lparr>shape := 1 # shape R1\<rparr> else R1)
           in if length (shape R2) > 4 then Inl DimensionTooLarge else Inr R2)"

definition int_half :: "int \<Rightarrow> int" where
  \<comment> \<open>\<^verbatim>\<open>int(d/2.)\<close>: truncation towards zero\<close>
  "int_half d = (if d < 0 then - ((- d) div 2) else d div 2)"

section \<open>\<^verbatim>\<open>square_domain\<close>\<close>

definition square_pad :: "ndarray \<Rightarrow> metadata \<Rightarrow> error + ndarray \<times> metadata" where
  \<comment> \<open>the branch \<^verbatim>\<open>method == "pad"\<close>\<close>
  "square_pad R metadata =
     (let orig_dim_n = shape R ! 0; orig_dim_t = shape R ! 1;
          orig_dim_y = shape R ! 2; orig_dim_x = shape R ! 3;
          new_dim = max orig_dim_y orig_dim_x
      in ebind (amin (data R)) (\<lambda>mn.
         let R' = full [orig_dim_n, orig_dim_t, new_dim, new_dim] mn
         in if orig_dim_x < new_dim then
              (let idx_buffer = int_half (int new_dim - int orig_dim_x)
               in ebind (assign23 None (Some (idx_buffer, idx_buffer + int orig_dim_x)) R' R) (\<lambda>R2.
                  ebind (grow ''x1'' ''x2'' ''xpixelsize'' idx_buffer metadata) (\<lambda>md.
                    Inr (R2, md))))
            else if orig_dim_y < new_dim then
              (let idx_buffer = int_half (int new_dim - int orig_dim_y)
               in ebind (assign23 (Some (idx_buffer, idx_buffer + int orig_dim_y)) None R' R) (\<lambda>R2.
                  ebind (grow ''y1'' ''y2'' ''ypixelsize'' idx_buffer metadata) (\<lambda>md.
                    Inr (R2, md))))
            else Inr (R', metadata)))"

definition square_crop :: "ndarray \<Rightarrow> metadata \<Rightarrow> error + ndarray \<times> metadata" where
  \<comment> \<open>the branch \<^verbatim>\<open>method == "crop"\<close>\<close>
  "square_crop R metadata =
     (let orig_dim_n = shape R ! 0; orig_dim_t = shape R ! 1;
          orig_dim_y = shape R ! 2; orig_dim_x = shape R ! 3;
          new_dim = min orig_dim_y orig_dim_x;
          R' = full [orig_dim_n, orig_dim_t, new_dim, new_dim] (Fin 0)
      in if orig_dim_x > new_dim then
           (let idx_buffer = int_half (int orig_dim_x - int new_dim)
            in ebind (shrink ''x1'' ''x2'' ''xpixelsize'' idx_buffer metadata) (\<lambda>md.
                 Inr (sub23 None (Some (idx_buffer, idx_buffer + int new_dim)) R, md)))
         else if orig_dim_y > new_dim then
           (let idx_buffer = int_half (int orig_dim_y - int new_dim)
            in ebind (shrink ''y1'' ''y2'' ''ypixelsize'' idx_buffer metadata) (\<lambda>md.
                 Inr (sub23 (Some (idx_buffer, idx_buffer + int new_dim)) None R, md)))
         else Inr (R', metadata))"

definition unsquare_pad :: "ndarray \<Rightarrow> nat \<Rightarrow> nat \<Rightarrow> metadata \<Rightarrow> error + ndarray \<times> metadata" where
  \<comment> \<open>the branch \<^verbatim>\<open>method == "pad"\<close> of the inverse; \<open>(s0, s1)\<close> is \<^verbatim>\<open>shape\<close>\<close>
  "unsquare_pad R s0 s1 metadata =
     (let R' = full [shape R ! 0, shape R ! 1, s0, s1] (Fin 0)
      in if shape R ! 2 = s0 then
           (let idx_buffer = int_half (int (shape R ! 3) - int s1)
            in ebind (shrink ''x1'' ''x2'' ''xpixelsize'' idx_buffer metadata) (\<lambda>md.
                 Inr (sub23 None (Some (idx_buffer, idx_buffer + int s1)) R, md)))
         else if shape R ! 3 = s1 then
           (let idx_buffer = int_half (int (shape R ! 2) - int s0)
            in ebind (shrink ''y1'' ''y2'' ''ypixelsize'' idx_buffer metadata) (\<lambda>md.
                 Inr (sub23 (Some (idx_buffer, idx_buffer + int s0)) None R, md)))
         else Inr (R', metadata))"

definition unsquare_crop :: "ndarray \<Rightarrow> nat \<Rightarrow> nat \<Rightarrow> metadata \<Rightarrow> error + ndarray \<times> metadata" where
  \<comment> \<open>the branch \<^verbatim>\<open>method == "crop"\<close> of the inverse\<close>
  "unsquare_crop R s0 s1 metadata =
     (let R' = full [shape R ! 0, shape R ! 1, s0, s1] (Fin 0)
      in if shape R ! 2 = s0 then
           (let idx_buffer = int_half (int s1 - int (shape R ! 3))
            in ebind (assign23 None (Some (idx_buffer, idx_buffer + int (shape R ! 3))) R' R) (\<lambda>R2.
               ebind (grow ''x1'' ''x2'' ''xpixelsize'' idx_buffer metadata) (\<lambda>md.
                 Inr (R2, md))))
         else if shape R ! 3 = s1 then
           (let idx_buffer = int_half (int s0 - int (shape R ! 2))
            in ebind (assign23 (Some (idx_buffer, idx_buffer + int (shape R ! 2))) None R' R) (\<lambda>R2.
               ebind (grow ''y1'' ''y2'' ''ypixelsize'' idx_buffer metadata) (\<lambda>md.
                 Inr (R2, md))))
         else Inr (R', metadata))"

definition orig_domain_of :: "mval \<Rightarrow> error + nat \<times> nat" where
  \<comment> \<open>\<^verbatim>\<open>shape[0]\<close> and \<^verbatim>\<open>shape[1]\<close> of the value stored under \<^verbatim>\<open>orig_domain\<close>\<close>
  "orig_domain_of v = (case v of MDom s0 s1 \<Rightarrow> Inr (s0, s1) | _ \<Rightarrow> Inl TypeError)"

definition square_domain :: "ndarray \<Rightarrow> metadata \<Rightarrow> string \<Rightarrow> bool \<Rightarrow> error + retval" where
  "square_domain R0 metadata method inverse' =
     (if \<not> inverse' then
        ebind (promote R0) (\<lambda>R.
          if shape R ! 2 = shape R ! 3 then Inr (Bare (squeeze R))
          else
            ebind (if method = ''pad'' then square_pad R metadata
                   else if method = ''crop'' then square_crop R metadata
                   else Inl UnknownType) (\<lambda>(R', md).
              Inr (Pair (squeeze R')
                        (md(''orig_domain'' := Some (MDom (shape R ! 2) (shape R ! 3)),
                            ''square_method'' := Some (MStr method))))))
      else
        ebind (promote R0) (\<lambda>R.
        ebind (md_get metadata ''square_method'') (\<lambda>method'.
        ebind (md_get (metadata(''square_method'' := None)) ''orig_domain'') (\<lambda>dom.
        ebind (orig_domain_of dom) (\<lambda>(s0, s1).
          let md0 = metadata(''square_method'' := None, ''orig_domain'' := None)
          in if shape R ! 2 = s0 \<and> shape R ! 3 = s1 then Inr (Bare (squeeze R))
             else
               ebind (if method' = MStr ''pad'' then unsquare_pad R s0 s1 md0
                      else if method' = MStr ''crop'' then unsquare_crop R s0 s1 md0
                      else Inr (full [shape R ! 0, shape R ! 1, s0, s1] (Fin 0), md0)) (\<lambda>(R', md).
                 Inr (Pair (squeeze R') md)))))))"

subsection \<open>Vocabulary for the round trips\<close>

text \<open>
  The metadata holds numbers under the keys of the bounds and of the pixel sizes, which both
  directions of \<^verbatim>\<open>square_domain\<close> read and update.
\<close>

definition is_num :: "metadata \<Rightarrow> string \<Rightarrow> bool" where
  "is_num md k = (case md k of Some (MNum v) \<Rightarrow> True | _ \<Rightarrow> False)"

definition georeferenced :: "metadata \<Rightarrow> bool" where
  "georeferenced md \<longleftrightarrow>
     list_all (is_num md) [''x1'', ''x2'', ''y1'', ''y2'', ''xpixelsize'', ''ypixelsize'']"

text \<open>
  The slices of lines 336 and 342 (written by "pad") and of lines 394 and 400 (read by its
  inverse), and the slices of lines 353 and 359 (read by "crop") and of lines 408 and 414
  (written by its inverse), for a field of spatial extents \<open>y\<close> and \<open>x\<close>.
\<close>

definition pad_ys :: "nat \<Rightarrow> nat \<Rightarrow> pyslice" where
  "pad_ys y x = (if x < y then None else Some (int ((x - y) div 2), int ((x - y) div 2) + int y))"

definition pad_xs :: "nat \<Rightarrow> nat \<Rightarrow> pyslice" where
  "pad_xs y x = (if x < y then Some (int ((y - x) div 2), int ((y - x) div 2) + int x) else None)"

definition crop_ys :: "nat \<Rightarrow> nat \<Rightarrow> pyslice" where
  "crop_ys y x = (if y < x then None else Some (int ((y - x) div 2), int ((y - x) div 2) + int x))"

definition crop_xs :: "nat \<Rightarrow> nat \<Rightarrow> pyslice" where
  "crop_xs y x = (if y < x then Some (int ((x - y) div 2), int ((x - y) div 2) + int y) else None)"

section \<open>\<^verbatim>\<open>adjust_domain\<close>\<close>

definition linspace :: "rat \<Rightarrow> rat \<Rightarrow> nat \<Rightarrow> rat list" where
  \<comment> \<open>\<^verbatim>\<open>np.linspace(start, stop, num)\<close>\<close>
  "linspace start stop num =
     (if num = 1 then [start]
      else map (\<lambda>i. start + of_nat i * ((stop - start) / of_nat (num - 1))) [0..<num])"

definition where_idx :: "('a \<Rightarrow> bool) \<Rightarrow> 'a list \<Rightarrow> nat list" where
  \<comment> \<open>\<^verbatim>\<open>np.where(cond)[0]\<close>: the positions at which the condition holds\<close>
  "where_idx P xs = filter (\<lambda>i. P (xs ! i)) [0..<length xs]"

definition first_last :: "nat list \<Rightarrow> error + int \<times> int" where
  \<comment> \<open>\<^verbatim>\<open>idx[0]\<close> and \<^verbatim>\<open>idx[-1]\<close>\<close>
  "first_last idx = (if idx = [] then Inl IndexError else Inr (int (hd idx), int (last idx)))"

definition new_dim_of :: "rat \<Rightarrow> rat \<Rightarrow> rat \<Rightarrow> error + int" where
  \<comment> \<open>\<^verbatim>\<open>int((lim.max() - lim.min())/pixelsize)\<close>: a zero pixel size gives an infinity
      or a not-a-number, which \<^verbatim>\<open>int\<close> refuses\<close>
  "new_dim_of hi lo px =
     (if px = 0 then (if hi - lo = 0 then Inl NaNConversion else Inl OverflowError)
      else Inr (if (hi - lo) / px < 0 then - \<lfloor>- ((hi - lo) / px)\<rfloor> else \<lfloor>(hi - lo) / px\<rfloor>))"

definition ones_extents :: "int \<Rightarrow> int \<Rightarrow> error + nat \<times> nat" where
  \<comment> \<open>\<^verbatim>\<open>np.ones\<close> refuses a negative extent\<close>
  "ones_extents dy dx = (if dy < 0 \<or> dx < 0 then Inl NegativeDimension else Inr (nat dy, nat dx))"

definition lims :: "metadata \<Rightarrow> string \<Rightarrow> string \<Rightarrow> (rat \<times> rat) option \<Rightarrow> error + rat \<times> rat" where
  \<comment> \<open>a limit that is \<^verbatim>\<open>None\<close> is replaced by the bounds of the metadata\<close>
  "lims metadata k1 k2 limit =
     (case limit of Some l \<Rightarrow> Inr l
      | None \<Rightarrow> ebind (md_num metadata k1) (\<lambda>v1. ebind (md_num metadata k2) (\<lambda>v2. Inr (v1, v2))))"

definition pixel_centres :: "rat \<Rightarrow> rat \<Rightarrow> rat \<Rightarrow> nat \<Rightarrow> rat list" where
  \<comment> \<open>\<^verbatim>\<open>np.linspace(lo, hi - pixelsize, num) + pixelsize/2.\<close>\<close>
  "pixel_centres lo hi pixelsize num = map (\<lambda>v. v + pixelsize / 2) (linspace lo (hi - pixelsize) num)"

definition adjust_domain ::
  "ndarray \<Rightarrow> metadata \<Rightarrow> (rat \<times> rat) option \<Rightarrow> (rat \<times> rat) option \<Rightarrow> error + ndarray \<times> metadata" where
  "adjust_domain R0 metadata xlim0 ylim0 =
     (if xlim0 = None \<and> ylim0 = None then Inr (R0, metadata)
      else
      ebind (lims metadata ''y1'' ''y2'' ylim0) (\<lambda>ylim.
      ebind (lims metadata ''x1'' ''x2'' xlim0) (\<lambda>xlim.
      ebind (promote R0) (\<lambda>R.
      let xmin = min (fst xlim) (snd xlim); xmax = max (fst xlim) (snd xlim);
          ymin = min (fst ylim) (snd ylim); ymax = max (fst ylim) (snd ylim)
      in
      ebind (md_num metadata ''xpixelsize'') (\<lambda>xpixelsize.
      ebind (new_dim_of xmax xmin xpixelsize) (\<lambda>dim_x.
      ebind (md_num metadata ''ypixelsize'') (\<lambda>ypixelsize.
      ebind (new_dim_of ymax ymin ypixelsize) (\<lambda>dim_y.
      ebind (ones_extents dim_y dim_x) (\<lambda>(new_dim_y, new_dim_x).
      ebind (md_num metadata ''zerovalue'') (\<lambda>zerovalue.
      let R' = full [shape R ! 0, shape R ! 1, new_dim_y, new_dim_x] (Fin zerovalue) in
      ebind (md_num metadata ''y1'') (\<lambda>y1.
      ebind (md_num metadata ''y2'') (\<lambda>y2.
      ebind (md_num metadata ''x1'') (\<lambda>x1.
      ebind (md_num metadata ''x2'') (\<lambda>x2.
      let y_coord = pixel_centres y1 y2 ypixelsize (shape R ! 2);
          x_coord = pixel_centres x1 x2 xpixelsize (shape R ! 3);
          y_coord' = pixel_centres ymin ymax ypixelsize new_dim_y;
          x_coord' = pixel_centres xmin xmax xpixelsize new_dim_x;
          idx_y = where_idx (\<lambda>v. v < ymax \<and> v > ymin) y_coord;
          idx_x = where_idx (\<lambda>v. v < xmax \<and> v > xmin) x_coord;
          idx_y' = where_idx (\<lambda>v. v < y2 \<and> v > y1) y_coord';
          idx_x' = where_idx (\<lambda>v. v < x2 \<and> v > x1) x_coord'
      in
      ebind (first_last idx_y) (\<lambda>sy.
      ebind (first_last idx_x) (\<lambda>sx.
      ebind (first_last idx_y') (\<lambda>sy'.
      ebind (first_last idx_x') (\<lambda>sx'.
      ebind (assign23 (Some sy') (Some sx') R' (sub23 (Some sy) (Some sx) R)) (\<lambda>R2.
        Inr (squeeze R2,
             metadata(''y1'' := Some (MNum ymin), ''y2'' := Some (MNum ymax),
                      ''x1'' := Some (MNum xmin), ''x2'' := Some (MNum xmax))))))))))))))))))))))"

section \<open>\<^verbatim>\<open>aggregate_fields\<close>\<close>

subsection \<open>Arrays of any rank\<close>

fun ravel :: "nat list \<Rightarrow> nat list \<Rightarrow> nat" where
  \<comment> \<open>the row-major position of a multi-index\<close>
  "ravel (d # ds) (i # is) = i * prod_list ds + ravel ds is"
| "ravel _ _ = 0"

fun unravel :: "nat list \<Rightarrow> nat \<Rightarrow> nat list" where
  \<comment> \<open>the multi-index of a row-major position\<close>
  "unravel [] q = []"
| "unravel (d # ds) q = (q div prod_list ds) # unravel ds (q mod prod_list ds)"

definition get :: "ndarray \<Rightarrow> nat list \<Rightarrow> elem" where
  \<comment> \<open>\<^verbatim>\<open>R[i0, i1, ...]\<close>\<close>
  "get R idx = data R ! ravel (shape R) idx"

definition valid_index :: "nat list \<Rightarrow> nat list \<Rightarrow> bool" where
  "valid_index s idx \<longleftrightarrow> length idx = length s \<and> (\<forall>k < length s. idx ! k < s ! k)"

definition swap :: "nat \<Rightarrow> nat \<Rightarrow> 'a list \<Rightarrow> 'a list" where
  "swap a b xs = xs[a := xs ! b, b := xs ! a]"

definition swapaxes :: "nat \<Rightarrow> nat \<Rightarrow> ndarray \<Rightarrow> ndarray" where
  \<comment> \<open>\<^verbatim>\<open>R.swapaxes(a, b)\<close>, laid out in row-major order of the new shape\<close>
  "swapaxes a b R =
     \<lparr>shape = swap a b (shape R),
      data = map (\<lambda>q. data R ! ravel (shape R) (swap a b (unravel (swap a b (shape R)) q)))
                 [0..<length (data R)]\<rparr>"

definition norm_axis :: "nat \<Rightarrow> int \<Rightarrow> error + nat" where
  \<comment> \<open>\<^verbatim>\<open>R.shape[axis]\<close>: a negative axis counts from the end\<close>
  "norm_axis rank axis =
     (if - int rank \<le> axis \<and> axis < int rank then Inr (nat (axis mod int rank)) else Inl IndexError)"

definition reshape :: "nat list \<Rightarrow> ndarray \<Rightarrow> error + ndarray" where
  "reshape s R = (if prod_list s = length (data R) then Inr (R\<lparr>shape := s\<rparr>) else Inl ReshapeError)"

definition reshape_rows :: "nat \<Rightarrow> ndarray \<Rightarrow> error + ndarray" where
  \<comment> \<open>\<^verbatim>\<open>R.reshape((N, -1))\<close>: numpy infers the extent \<^verbatim>\<open>-1\<close> as the quotient of the
      size by the known extents and refuses when their product is 0\<close>
  "reshape_rows N R =
     (if N = 0 \<or> length (data R) mod N \<noteq> 0 then Inl ReshapeError
      else Inr (R\<lparr>shape := [N, length (data R) div N]\<rparr>))"

definition reshape_blocks :: "int \<Rightarrow> int \<Rightarrow> nat \<Rightarrow> ndarray \<Rightarrow> error + ndarray" where
  \<comment> \<open>\<^verbatim>\<open>R_.reshape(int(N/window_size), window_size, R_.shape[1])\<close>; the two first
      extents have the sign of the window and the rows are not empty, so a negative window
      asks for two unknown extents, which numpy refuses\<close>
  "reshape_blocks K w M R = (if w < 0 \<or> K < 0 then Inl ReshapeError else reshape [nat K, nat w, M] R)"

subsection \<open>The four reductions\<close>

fun eadd :: "elem \<Rightarrow> elem \<Rightarrow> elem" where
  "eadd NaN _ = NaN"
| "eadd _ NaN = NaN"
| "eadd (Fin a) (Fin b) = Fin (a + b)"

definition esum :: "elem list \<Rightarrow> elem" where
  "esum xs = foldl eadd (Fin 0) xs"

definition emean :: "elem list \<Rightarrow> elem" where
  "emean xs = (case esum xs of NaN \<Rightarrow> NaN
               | Fin v \<Rightarrow> if xs = [] then NaN else Fin (v / of_nat (length xs)))"

definition enansum :: "elem list \<Rightarrow> elem" where
  "enansum xs = esum (filter (\<lambda>v. v \<noteq> NaN) xs)"

definition enanmean :: "elem list \<Rightarrow> elem" where
  "enanmean xs = emean (filter (\<lambda>v. v \<noteq> NaN) xs)"

definition lower :: "string \<Rightarrow> string" where
  \<comment> \<open>\<^verbatim>\<open>method.lower()\<close> on ASCII letters\<close>
  "lower s = map (\<lambda>c. let k = (of_char c :: nat) in if 65 \<le> k \<and> k \<le> 90 then char_of (k + 32) else c) s"

definition reducer :: "string \<Rightarrow> (elem list \<Rightarrow> elem) option" where
  "reducer m =
     (if m = ''sum'' then Some esum
      else if m = ''mean'' then Some emean
      else if m = ''nansum'' then Some enansum
      else if m = ''nanmean'' then Some enanmean
      else None)"

definition reduce_axis1 :: "(elem list \<Rightarrow> elem) \<Rightarrow> ndarray \<Rightarrow> ndarray" where
  \<comment> \<open>a reduction over axis 1 of an array of rank 3\<close>
  "reduce_axis1 f B =
     (let K = shape B ! 0; w = shape B ! 1; M = shape B ! 2
      in \<lparr>shape = [K, M],
          data = map (\<lambda>q. f (map (\<lambda>j. data B ! ((q div M * w + j) * M + q mod M)) [0..<w]))
                     [0..<K * M]\<rparr>)"

definition aggregate_fields :: "ndarray \<Rightarrow> int \<Rightarrow> int \<Rightarrow> string \<Rightarrow> error + ndarray" where
  "aggregate_fields R window_size axis method =
     ebind (norm_axis (length (shape R)) axis) (\<lambda>a.
       let N = shape R ! a in
       if window_size = 0 then Inl ZeroDivisionError
       else if int N mod window_size \<noteq> 0 then Inl (WindowNoSplit window_size N)
       else
         let R1 = swapaxes a 0 R; shape1 = shape R1 in
         ebind (reshape_rows N R1) (\<lambda>R'.
         ebind (case reducer (lower method) of None \<Rightarrow> Inl (UnknownMethod method)
                | Some f \<Rightarrow> Inr f) (\<lambda>f.
         ebind (reshape_blocks (int N div window_size) window_size (shape R' ! 1) R') (\<lambda>B.
         ebind (reshape (shape1[0 := nat (int N div window_size)]) (reduce_axis1 f B)) (\<lambda>R2.
           Inr (swapaxes a 0 R2))))))"

section \<open>\<^verbatim>\<open>aggregate_fields_time\<close> and \<^verbatim>\<open>aggregate_fields_space\<close>\<close>

subsection \<open>Python floats\<close>

text \<open>
  The sampling interval, the pixel sizes and the windows are Python floats, that is IEEE 754
  binary64 numbers, and the two functions compute with them: a product, a remainder and a
  quotient that is truncated to the block size. A finite float is modelled by its value, a
  rational number, and an operation returns the exact result rounded to the nearest binary64
  number, ties to the even significand. An int that stands where a float is expected (a
  window of \<^verbatim>\<open>10\<close> minutes) is converted by the same rounding, so it is given by its value
  as well.
\<close>

fun bits :: "nat \<Rightarrow> nat" where
  \<comment> \<open>the number of binary digits\<close>
  "bits n = (if n = 0 then 0 else Suc (bits (n div 2)))"

definition pow2 :: "int \<Rightarrow> rat" where
  "pow2 k = (if 0 \<le> k then 2 ^ nat k else 1 / 2 ^ nat (- k))"

definition binexp :: "rat \<Rightarrow> int" where
  \<comment> \<open>the binary exponent of \<open>x > 0\<close>: \<open>pow2 (binexp x) \<le> x < pow2 (binexp x + 1)\<close>\<close>
  "binexp x = (if 1 \<le> x then int (bits (nat \<lfloor>x\<rfloor>)) - 1 else - int (bits (nat \<lceil>1 / x\<rceil> - 1)))"

definition round_even :: "rat \<Rightarrow> int" where
  \<comment> \<open>the nearest integer, the even one of two that are equally near\<close>
  "round_even q =
     (let f = \<lfloor>q\<rfloor>; d = q - of_int f
      in if d < 1 / 2 then f else if 1 / 2 < d then f + 1 else if even f then f else f + 1)"

definition round64 :: "rat \<Rightarrow> rat" where
  \<comment> \<open>the nearest number with a significand of 53 bits and an exponent of at least
      \<open>-1022\<close> (below it the numbers are subnormal, with the spacing \<open>pow2 (-1074)\<close>)\<close>
  "round64 x =
     (if x = 0 then 0
      else let e = max (binexp \<bar>x\<bar>) (- 1022); ulp = pow2 (e - 52)
           in of_int (round_even (x / ulp)) * ulp)"

text \<open>
  The result of an operation is not finite when the rounded value exceeds the largest
  binary64 number: it is then an infinity, and the remainder of an infinity is a
  not-a-number.
\<close>

datatype pyfloat = Finite rat | NotFinite

definition to_float :: "rat \<Rightarrow> pyfloat" where
  "to_float x = (if 2 ^ 1024 \<le> \<bar>round64 x\<bar> then NotFinite else Finite (round64 x))"

definition int_times_float :: "nat \<Rightarrow> rat \<Rightarrow> pyfloat" where
  \<comment> \<open>\<^verbatim>\<open>n*x\<close> for an int \<open>n\<close> (the extent of an axis) and a float \<open>x\<close>: the int is
      converted to a float, then the floats are multiplied\<close>
  "int_times_float n x = to_float (round64 (of_nat n) * x)"

definition trunc :: "rat \<Rightarrow> int" where
  \<comment> \<open>truncation towards zero\<close>
  "trunc v = (if v < 0 then - \<lfloor>- v\<rfloor> else \<lfloor>v\<rfloor>)"

definition float_mod :: "pyfloat \<Rightarrow> rat \<Rightarrow> error + pyfloat" where
  \<comment> \<open>\<^verbatim>\<open>a % b\<close> on floats: the remainder of the C library, which is exact and has the
      sign of \<open>a\<close>, moved by \<open>b\<close> when it is not zero and its sign is not that of \<open>b\<close>\<close>
  "float_mod a b =
     (if b = 0 then Inl ZeroDivisionError
      else case a of
        NotFinite \<Rightarrow> Inr NotFinite
      | Finite v \<Rightarrow>
          let m = v - of_int (trunc (v / b)) * b
          in Inr (if m \<noteq> 0 \<and> (b < 0) \<noteq> (m < 0) then to_float (m + b) else Finite m))"

definition truthy :: "pyfloat \<Rightarrow> bool" where
  \<comment> \<open>a float used as a condition: every float but zero is true\<close>
  "truthy a \<longleftrightarrow> a \<noteq> Finite 0"

definition float_div :: "rat \<Rightarrow> rat \<Rightarrow> error + pyfloat" where
  \<comment> \<open>\<^verbatim>\<open>a/b\<close> on floats\<close>
  "float_div a b = (if b = 0 then Inl ZeroDivisionError else Inr (to_float (a / b)))"

definition py_int :: "pyfloat \<Rightarrow> error + int" where
  \<comment> \<open>\<^verbatim>\<open>int(a)\<close> for a quotient of two floats: an infinity is refused\<close>
  "py_int a = (case a of NotFinite \<Rightarrow> Inl OverflowError | Finite v \<Rightarrow> Inr (trunc v))"

definition block_size :: "rat \<Rightarrow> rat \<Rightarrow> error + int" where
  \<comment> \<open>\<^verbatim>\<open>int(window/delta)\<close>\<close>
  "block_size window delta = ebind (float_div window delta) py_int"

subsection \<open>The two functions\<close>

definition strided :: "nat \<Rightarrow> nat \<Rightarrow> 'a list \<Rightarrow> 'a list" where
  \<comment> \<open>\<^verbatim>\<open>xs[start::step]\<close> for \<open>step > 0\<close>\<close>
  "strided start step xs =
     map (\<lambda>i. xs ! (start + i * step)) [0..<(length xs - start + step - 1) div step]"

definition mlen :: "mval \<Rightarrow> error + nat" where
  \<comment> \<open>\<^verbatim>\<open>len(v)\<close>\<close>
  "mlen v = (case v of MTimes ts \<Rightarrow> Inr (length ts) | MNums xs \<Rightarrow> Inr (length xs)
             | MStr s \<Rightarrow> Inr (length s) | MDom a b \<Rightarrow> Inr 2 | MNum x \<Rightarrow> Inl TypeError)"

definition delta_of :: "mval \<Rightarrow> error + rat" where
  \<comment> \<open>\<^verbatim>\<open>(timestamps[1] - timestamps[0]).seconds/60\<close>: the field \<^verbatim>\<open>seconds\<close> of a
      time difference is an int in \<open>[0, 86400)\<close>, whole days are held apart; the quotient
      of two ints is the float nearest to it\<close>
  "delta_of v =
     (case v of
        MTimes ts \<Rightarrow> if length ts < 2 then Inl IndexError
                     else Inr (round64 (of_int ((ts ! 1 - ts ! 0) mod 86400) / 60))
      | MNums xs \<Rightarrow> if length xs < 2 then Inl IndexError else Inl AttributeError
      | MStr s \<Rightarrow> if length s < 2 then Inl IndexError else Inl TypeError
      | MDom a b \<Rightarrow> Inl AttributeError
      | MNum x \<Rightarrow> Inl TypeError)"

definition mstrided :: "nat \<Rightarrow> nat \<Rightarrow> mval \<Rightarrow> error + mval" where
  \<comment> \<open>\<^verbatim>\<open>v[start::step]\<close> on a value of the metadata\<close>
  "mstrided start step v =
     (case v of MTimes ts \<Rightarrow> Inr (MTimes (strided start step ts))
      | MNums xs \<Rightarrow> Inr (MNums (strided start step xs))
      | MStr s \<Rightarrow> Inr (MStr (strided start step s))
      | _ \<Rightarrow> Inl TypeError)"

definition unit_method :: "mval \<Rightarrow> error + string" where
  \<comment> \<open>the operator used to aggregate the values within the window\<close>
  "unit_method unit =
     (if unit = MStr ''mm/h'' then Inr ''mean''
      else if unit = MStr ''mm'' then Inr ''sum''
      else Inl (BadUnit unit))"

definition aggregate_fields_time ::
  "ndarray \<Rightarrow> metadata \<Rightarrow> rat option \<Rightarrow> error + ndarray \<times> metadata" where
  "aggregate_fields_time R metadata time_window_min' =
     (case time_window_min' of None \<Rightarrow> Inr (R, metadata) | Some time_window_min \<Rightarrow>
      ebind (md_get metadata ''unit'') (\<lambda>unit.
      ebind (md_get metadata ''timestamps'') (\<lambda>timestamps.
      if length (shape R) < 3 then Inl DimensionTooSmall
      else if length (shape R) > 4 then Inl DimensionTooLarge
      else
        let axis = (if length (shape R) = 3 then 0 else 1) in
        ebind (mlen timestamps) (\<lambda>len.
        if shape R ! axis \<noteq> len then Inl (TimestampsLength len (shape R ! axis))
        else
          ebind (delta_of timestamps) (\<lambda>delta.
          if delta = time_window_min then Inr (R, metadata)
          else
            ebind (float_mod (int_times_float (shape R ! axis) delta) time_window_min) (\<lambda>rest.
            if truthy rest then Inl TimeWindowNoSplit
            else
              ebind (block_size time_window_min delta) (\<lambda>nframes.
              ebind (unit_method unit) (\<lambda>method.
              ebind (aggregate_fields R nframes (int axis) method) (\<lambda>R'.
              ebind (mstrided (nat (nframes - 1)) (nat nframes) timestamps) (\<lambda>ts'.
                let md = metadata(''accutime'' := Some (MNum time_window_min),
                                  ''timestamps'' := Some ts')
                in case metadata ''leadtimes'' of None \<Rightarrow> Inr (R', md)
                   | Some leadtimes \<Rightarrow>
                       ebind (mstrided (nat (nframes - 1)) (nat nframes) leadtimes) (\<lambda>lt'.
                         Inr (R', md(''leadtimes'' := Some lt')))))))))))))"

definition aggregate_fields_space ::
  "ndarray \<Rightarrow> metadata \<Rightarrow> rat option \<Rightarrow> error + ndarray \<times> metadata" where
  "aggregate_fields_space R metadata space_window_m' =
     (case space_window_m' of None \<Rightarrow> Inr (R, metadata) | Some space_window_m \<Rightarrow>
      ebind (md_get metadata ''unit'') (\<lambda>unit.
      ebind (md_num metadata ''ypixelsize'') (\<lambda>ypixelsize.
      ebind (md_num metadata ''xpixelsize'') (\<lambda>xpixelsize.
      if length (shape R) < 3 then Inl DimensionTooSmall
      else if length (shape R) > 4 then Inl DimensionTooLarge
      else
        let axes = (if length (shape R) = 3 then [1, 2] else [2, 3]) in
        if ypixelsize = space_window_m \<and> xpixelsize = space_window_m then Inr (R, metadata)
        else
          ebind (float_mod (int_times_float (shape R ! (axes ! 0)) ypixelsize) space_window_m)
            (\<lambda>rest0.
          ebind (if truthy rest0 then Inr rest0
                 else float_mod (int_times_float (shape R ! (axes ! 1)) xpixelsize) space_window_m)
            (\<lambda>rest.
          if truthy rest then Inl SpaceWindowNoSplit
          else
            ebind (block_size space_window_m ypixelsize) (\<lambda>nframes0.
            ebind (block_size space_window_m xpixelsize) (\<lambda>nframes1.
            ebind (unit_method unit) (\<lambda>method.
            ebind (aggregate_fields R nframes0 (int (axes ! 0)) method) (\<lambda>R1.
            ebind (aggregate_fields R1 nframes1 (int (axes ! 1)) method) (\<lambda>R2.
              Inr (R2, metadata(''ypixelsize'' := Some (MNum space_window_m),
                                ''xpixelsize'' := Some (MNum space_window_m))))))))))))))"

section \<open>Properties\<close>

subsection \<open>Sequencing\<close>

lemma ebind_Inr [simp]: "ebind (Inr v) f = f v"
  by (simp add: ebind_def)

lemma ebind_Inl [simp]: "ebind (Inl e) f = Inl e"
  by (simp add: ebind_def)

lemma ebind_eq_Inr: "ebind m f = Inr r \<longleftrightarrow> (\<exists>v. m = Inr v \<and> f v = Inr r)"
  by (cases m) simp_all

subsection \<open>Shapes\<close>

lemma full_shape [simp]: "shape (full s c) = s"
  by (simp add: full_def)

lemma full_data [simp]: "data (full s c) = replicate (prod_list s) c"
  by (simp add: full_def)

lemma squeeze_data [simp]: "data (squeeze R) = data R"
  by (simp add: squeeze_def)

lemma squeeze_shape [simp]: "shape (squeeze R) = filter (\<lambda>d. d \<noteq> 1) (shape R)"
  by (simp add: squeeze_def)

lemma assign23_shape: "assign23 ys xs R' S = Inr R2 \<Longrightarrow> shape R2 = shape R'"
  by (auto simp: assign23_def Let_def split: if_splits)

lemma sub23_rank [simp]: "length (shape (sub23 ys xs R)) = 4"
  by (simp add: sub23_def Let_def)











subsection \<open>The early returns of \<^verbatim>\<open>square_domain\<close>\<close>

text \<open>
  Claim C2: every successful call returns a pair (field, metadata); in particular
  \<^verbatim>\<open>square_domain\<close> on an already-square field, and its inverse on a field that already
  has the recorded original shape, return the field together with a metadata record.

  The code does not: both early returns are \<^verbatim>\<open>return R.squeeze()\<close>, the array alone.
  On a square 2x2 field, whatever the metadata, and on a 2x3 field whose metadata records
  the original domain (2, 3), the result is the bare array.
\<close>

theorem square_domain_early_return_is_bare_array:
  "square_domain \<lparr>shape = [2, 2], data = [Fin 1, Fin 2, Fin 3, Fin 4]\<rparr> md ''pad'' False
     = Inr (Bare \<lparr>shape = [2, 2], data = [Fin 1, Fin 2, Fin 3, Fin 4]\<rparr>)
   \<and> square_domain \<lparr>shape = [2, 3], data = [Fin 1, Fin 2, Fin 3, Fin 4, Fin 5, Fin 6]\<rparr>
        [''square_method'' \<mapsto> MStr ''pad'', ''orig_domain'' \<mapsto> MDom 2 3] ''pad'' True
     = Inr (Bare \<lparr>shape = [2, 3], data = [Fin 1, Fin 2, Fin 3, Fin 4, Fin 5, Fin 6]\<rparr>)"
  by (simp add: square_domain_def promote_def squeeze_def md_get_def orig_domain_of_def)

subsection \<open>The copied block of \<^verbatim>\<open>adjust_domain\<close>\<close>

text \<open>
  Claim C8: \<^verbatim>\<open>adjust_domain\<close> returns a field in which every cell whose pixel centre
  lies inside the old bounds holds the input value at that location, and every other cell
  holds \<^verbatim>\<open>zerovalue\<close>.

  The code copies the block \<^verbatim>\<open>idx[0]:idx[-1]\<close> on both axes, a slice that stops before
  the last overlapping index, so the last overlapping row and column are never copied.
  With the requested limits equal to the bounds of a 2x2 field (pixel size 1, zerovalue 0),
  all four cell centres lie inside the old bounds, yet only the first cell is copied.
\<close>

theorem adjust_domain_same_limits_loses_last_row_and_column:
  "map_sum id fst
     (adjust_domain \<lparr>shape = [2, 2], data = [Fin 1, Fin 2, Fin 3, Fin 4]\<rparr>
        [''x1'' \<mapsto> MNum 0, ''x2'' \<mapsto> MNum 2, ''y1'' \<mapsto> MNum 0, ''y2'' \<mapsto> MNum 2,
         ''xpixelsize'' \<mapsto> MNum 1, ''ypixelsize'' \<mapsto> MNum 1, ''zerovalue'' \<mapsto> MNum 0]
        (Some (0, 2)) (Some (0, 2)))
   = Inr \<lparr>shape = [2, 2], data = [Fin 1, Fin 0, Fin 0, Fin 0]\<rparr>"
  by code_simp

subsection \<open>Axes of extent 1\<close>




subsection \<open>Rounded values\<close>

lemma pow2_pos: "0 < pow2 k"
  by (simp add: pow2_def)

lemma round_even_nonneg: "0 \<le> q \<Longrightarrow> 0 \<le> round_even q"
  by (auto simp: round_even_def Let_def)

lemma round_even_nonpos: "q \<le> 0 \<Longrightarrow> round_even q \<le> 0"
proof -
  assume q: "q \<le> 0"
  show ?thesis
  proof (cases "q = 0")
    case True
    then show ?thesis by (simp add: round_even_def)
  next
    case False
    with q have "q < 0" by simp
    then have "\<lfloor>q\<rfloor> < 0" by (simp add: floor_less_iff)
    then show ?thesis by (auto simp: round_even_def Let_def)
  qed
qed

lemma round64_nonneg: "0 \<le> x \<Longrightarrow> 0 \<le> round64 x"
proof -
  assume x: "0 \<le> x"
  show ?thesis
  proof (cases "x = 0")
    case True
    then show ?thesis by (simp add: round64_def)
  next
    case False
    define u where "u = pow2 (max (binexp \<bar>x\<bar>) (- 1022) - 52)"
    have u: "0 < u" unfolding u_def by (rule pow2_pos)
    with x have "0 \<le> x / u" by simp
    then have "0 \<le> round_even (x / u)" by (rule round_even_nonneg)
    then have "0 \<le> of_int (round_even (x / u)) * u"
      using u by simp
    with False show ?thesis by (simp add: round64_def Let_def u_def)
  qed
qed

lemma round64_nonpos: "x \<le> 0 \<Longrightarrow> round64 x \<le> 0"
proof -
  assume x: "x \<le> 0"
  show ?thesis
  proof (cases "x = 0")
    case True
    then show ?thesis by (simp add: round64_def)
  next
    case False
    define u where "u = pow2 (max (binexp \<bar>x\<bar>) (- 1022) - 52)"
    have u: "0 < u" unfolding u_def by (rule pow2_pos)
    with x have "x / u \<le> 0" by (simp add: divide_nonpos_pos)
    then have "round_even (x / u) \<le> 0" by (rule round_even_nonpos)
    then have "of_int (round_even (x / u)) * u \<le> 0"
      using u by (simp add: mult_le_0_iff)
    with False show ?thesis by (simp add: round64_def Let_def u_def)
  qed
qed

lemma delta_of_nonneg: "delta_of ts = Inr delta \<Longrightarrow> 0 \<le> delta"
  by (auto simp: delta_of_def split: mval.splits if_splits intro!: round64_nonneg)

lemma trunc_nonpos: "v \<le> 0 \<Longrightarrow> trunc v \<le> 0"
  by (auto simp: trunc_def)

lemma block_size_pos:
  assumes "block_size w d = Inr k" and "0 < k" and "0 \<le> d"
  shows "0 < w \<and> 0 < d"
proof -
  from assms(1) have d: "d \<noteq> 0" and k: "k = trunc (round64 (w / d))"
    by (auto simp: block_size_def float_div_def py_int_def to_float_def ebind_eq_Inr
          split: if_splits pyfloat.splits)
  from d assms(3) have dpos: "0 < d" by simp
  have "0 < w"
  proof (rule ccontr)
    assume "\<not> 0 < w"
    then have "w / d \<le> 0" using dpos by (simp add: divide_nonpos_pos)
    then have "trunc (round64 (w / d)) \<le> 0"
      by (intro trunc_nonpos round64_nonpos)
    with k assms(2) show False by simp
  qed
  with dpos show ?thesis by simp
qed

lemma int_times_float_nonneg:
  assumes "int_times_float n x = Finite v" and "0 \<le> x"
  shows "0 \<le> v"
proof -
  have "0 \<le> round64 (rat_of_nat n)" by (rule round64_nonneg) simp
  from this assms(2) have "0 \<le> round64 (rat_of_nat n) * x" by (rule mult_nonneg_nonneg)
  then have "0 \<le> round64 (round64 (rat_of_nat n) * x)" by (rule round64_nonneg)
  with assms(1) show ?thesis
    by (auto simp: int_times_float_def to_float_def split: if_splits)
qed

lemma float_mod_zero_multiple:
  assumes "float_mod (Finite v) w = Inr (Finite 0)" and "0 \<le> v" and "0 < w"
  shows "v = of_int \<lfloor>v / w\<rfloor> * w"
proof -
  from assms(2,3) have q: "0 \<le> v / w" by simp
  then have tr: "trunc (v / w) = \<lfloor>v / w\<rfloor>" by (simp add: trunc_def)
  have "of_int \<lfloor>v / w\<rfloor> \<le> v / w" by (rule of_int_floor_le)
  moreover from assms(3) have "(of_int \<lfloor>v / w\<rfloor> \<le> v / w) = (of_int \<lfloor>v / w\<rfloor> * w \<le> v)"
    by (rule pos_le_divide_eq)
  ultimately have "of_int \<lfloor>v / w\<rfloor> * w \<le> v" by (simp only:)
  then have m: "\<not> v - of_int \<lfloor>v / w\<rfloor> * w < 0" by simp
  from assms(1,3) m show ?thesis
    by (simp add: float_mod_def tr Let_def split: if_splits)
qed

lemma bits_le: "n < 2 ^ k \<Longrightarrow> bits n \<le> k"
proof (induction k arbitrary: n)
  case 0
  then show ?case by (simp add: bits.simps)
next
  case (Suc k)
  show ?case
  proof (cases "n = 0")
    case True
    then show ?thesis by (simp add: bits.simps)
  next
    case False
    from Suc.prems have "n div 2 < 2 ^ k" by simp
    then have "bits (n div 2) \<le> k" by (rule Suc.IH)
    with False show ?thesis by (subst bits.simps) simp
  qed
qed

lemma binexp_le:
  assumes "0 < x" and "x < 2 ^ 53"
  shows "binexp x \<le> 52"
proof (cases "1 \<le> x")
  case True
  from assms(2) have "\<lfloor>x\<rfloor> < 2 ^ 53" by (simp add: floor_less_iff)
  moreover from True have "0 \<le> \<lfloor>x\<rfloor>" by simp
  ultimately have "nat \<lfloor>x\<rfloor> < 2 ^ 53" by (simp add: nat_less_iff)
  then have "bits (nat \<lfloor>x\<rfloor>) \<le> 53" by (rule bits_le)
  with True show ?thesis by (simp add: binexp_def)
next
  case False
  then show ?thesis by (simp add: binexp_def)
qed

lemma round_even_ge: "of_int m \<le> q \<Longrightarrow> m \<le> round_even q"
proof -
  assume "of_int m \<le> q"
  then have "m \<le> \<lfloor>q\<rfloor>" by (simp add: le_floor_iff)
  then show ?thesis by (auto simp: round_even_def Let_def)
qed

lemma round_even_le: "q \<le> of_int m \<Longrightarrow> round_even q \<le> m"
proof -
  assume q: "q \<le> of_int m"
  show ?thesis
  proof (cases "q = of_int m")
    case True
    then show ?thesis by (simp add: round_even_def)
  next
    case False
    with q have "q < of_int m" by simp
    then have "\<lfloor>q\<rfloor> < m" by (simp add: floor_less_iff)
    then show ?thesis by (auto simp: round_even_def Let_def)
  qed
qed

lemma round64_integer_bounds:
  assumes "0 < x" and "x < 2 ^ 53"
  shows "(of_int n \<le> x \<longrightarrow> of_int n \<le> round64 x) \<and> (x \<le> of_int n \<longrightarrow> round64 x \<le> of_int n)"
proof -
  define e where "e = max (binexp x) (- 1022)"
  define M :: nat where "M = 2 ^ nat (52 - e)"
  from assms have "binexp x \<le> 52" by (rule binexp_le)
  then have e: "e \<le> 52" by (simp add: e_def)
  have M: "0 < M" by (simp add: M_def)
  have ulp: "pow2 (e - 52) = 1 / of_nat M"
  proof (cases "e = 52")
    case True
    then show ?thesis by (simp add: pow2_def M_def)
  next
    case False
    with e have "e < 52" by simp
    then have "nat (52 - e) = nat (- (e - 52))" by simp
    with \<open>e < 52\<close> show ?thesis by (simp add: pow2_def M_def)
  qed
  from assms(1) have r: "round64 x = of_int (round_even (x * of_nat M)) / of_nat M"
    by (simp add: round64_def Let_def e_def[symmetric] ulp)
  have lo: "of_int n \<le> round64 x" if "of_int n \<le> x"
  proof -
    from that M have "of_int (n * int M) \<le> x * of_nat M" by simp
    then have "n * int M \<le> round_even (x * of_nat M)" by (rule round_even_ge)
    then have "rat_of_int (n * int M) \<le> of_int (round_even (x * of_nat M))"
      by (simp only: of_int_le_iff)
    with M show ?thesis by (simp add: r pos_le_divide_eq)
  qed
  have hi: "round64 x \<le> of_int n" if "x \<le> of_int n"
  proof -
    from that M have "x * of_nat M \<le> of_int (n * int M)" by simp
    then have "round_even (x * of_nat M) \<le> n * int M" by (rule round_even_le)
    then have "rat_of_int (round_even (x * of_nat M)) \<le> of_int (n * int M)"
      by (simp only: of_int_le_iff)
    with M show ?thesis by (simp add: r pos_divide_le_eq)
  qed
  from lo hi show ?thesis by blast
qed

lemma block_size_bounds:
  assumes "block_size w d = Inr k" and "0 < w" and "0 < d" and "w / d < 2 ^ 53"
  shows "\<lfloor>w / d\<rfloor> \<le> k \<and> k \<le> \<lceil>w / d\<rceil>"
proof -
  from assms(2,3) have q: "0 < w / d" by simp
  from assms(1) have k: "k = trunc (round64 (w / d))"
    by (auto simp: block_size_def float_div_def py_int_def to_float_def ebind_eq_Inr
          split: if_splits pyfloat.splits)
  from q have "0 \<le> round64 (w / d)" by (intro round64_nonneg) simp
  with k have kf: "k = \<lfloor>round64 (w / d)\<rfloor>" by (simp add: trunc_def)
  have "of_int \<lfloor>w / d\<rfloor> \<le> round64 (w / d)"
    using round64_integer_bounds[OF q assms(4), of "\<lfloor>w / d\<rfloor>"] by simp
  then have 1: "\<lfloor>w / d\<rfloor> \<le> k" unfolding kf by (simp add: le_floor_iff)
  have "round64 (w / d) \<le> of_int \<lceil>w / d\<rceil>"
    using round64_integer_bounds[OF q assms(4), of "\<lceil>w / d\<rceil>"] by simp
  then have 2: "k \<le> \<lceil>w / d\<rceil>" unfolding kf by (simp add: floor_le_iff) 
  from 1 2 show ?thesis by simp
qed

subsection \<open>Successful calls of the temporal and spatial aggregators\<close>

lemma aggregate_fields_window_pos:
  assumes "aggregate_fields R w a m = Inr R'" shows "0 < w"
  using assms
  by (auto simp: aggregate_fields_def ebind_eq_Inr Let_def reshape_blocks_def split: if_splits)

lemma aggregate_fields_window_divides:
  assumes "aggregate_fields R w (int a) m = Inr R'" and "a < length (shape R)"
  shows "int (shape R ! a) mod w = 0 \<and> 0 < shape R ! a"
  using assms
  by (auto simp: aggregate_fields_def ebind_eq_Inr Let_def norm_axis_def reshape_rows_def
           split: if_splits)

lemma not_truthy_iff: "\<not> truthy a \<longleftrightarrow> a = Finite 0"
  by (simp add: truthy_def)

lemma aggregate_fields_time_Inr:
  assumes "aggregate_fields_time R md (Some w) = Inr (R', md')"
  shows "\<exists>unit ts delta. md ''unit'' = Some unit \<and> md ''timestamps'' = Some ts
      \<and> (length (shape R) = 3 \<or> length (shape R) = 4)
      \<and> mlen ts = Inr (shape R ! (if length (shape R) = 3 then 0 else 1))
      \<and> delta_of ts = Inr delta
      \<and> (if delta = w then R' = R \<and> md' = md
         else float_mod (int_times_float (shape R ! (if length (shape R) = 3 then 0 else 1)) delta) w
               = Inr (Finite 0)
           \<and> (\<exists>nframes meth ts'. block_size w delta = Inr nframes
               \<and> unit_method unit = Inr meth
               \<and> aggregate_fields R nframes
                    (int (if length (shape R) = 3 then 0 else 1)) meth = Inr R'
               \<and> mstrided (nat (nframes - 1)) (nat nframes) ts = Inr ts'
               \<and> (case md ''leadtimes'' of
                     None \<Rightarrow> md' = md(''accutime'' := Some (MNum w), ''timestamps'' := Some ts')
                   | Some lt \<Rightarrow> \<exists>lt'.
                       mstrided (nat (nframes - 1)) (nat nframes) lt = Inr lt'
                       \<and> md' = md(''accutime'' := Some (MNum w), ''timestamps'' := Some ts',
                                  ''leadtimes'' := Some lt'))))"
proof (cases "md ''leadtimes''")
  case None
  with assms show ?thesis
    by (auto simp: aggregate_fields_time_def ebind_eq_Inr md_get_def Let_def not_truthy_iff
           split: option.splits if_splits)
next
  case (Some lt)
  with assms show ?thesis
    by (auto simp: aggregate_fields_time_def ebind_eq_Inr md_get_def Let_def not_truthy_iff
           split: option.splits if_splits)
qed

lemma aggregate_fields_space_Inr:
  assumes "aggregate_fields_space R md (Some w) = Inr (R', md')"
  shows "\<exists>unit ypixelsize xpixelsize. md ''unit'' = Some unit
      \<and> md_num md ''ypixelsize'' = Inr ypixelsize \<and> md_num md ''xpixelsize'' = Inr xpixelsize
      \<and> (length (shape R) = 3 \<or> length (shape R) = 4)
      \<and> (if ypixelsize = w \<and> xpixelsize = w then R' = R \<and> md' = md
         else float_mod (int_times_float (shape R ! (if length (shape R) = 3 then 1 else 2)) ypixelsize) w
               = Inr (Finite 0)
           \<and> float_mod (int_times_float (shape R ! (if length (shape R) = 3 then 2 else 3)) xpixelsize) w
               = Inr (Finite 0)
           \<and> (\<exists>nframes0 nframes1 meth R1.
                 block_size w ypixelsize = Inr nframes0 \<and> block_size w xpixelsize = Inr nframes1
               \<and> unit_method unit = Inr meth
               \<and> aggregate_fields R nframes0
                    (int (if length (shape R) = 3 then 1 else 2)) meth = Inr R1
               \<and> aggregate_fields R1 nframes1
                    (int (if length (shape R) = 3 then 2 else 3)) meth = Inr R'
               \<and> md' = md(''ypixelsize'' := Some (MNum w), ''xpixelsize'' := Some (MNum w))))"
  using assms
  by (auto simp: aggregate_fields_space_def ebind_eq_Inr md_get_def Let_def not_truthy_iff
           split: option.splits if_splits)



lemma unit_method_Inr:
  "unit_method u = Inr m \<longleftrightarrow> u = MStr ''mm/h'' \<and> m = ''mean'' \<or> u = MStr ''mm'' \<and> m = ''sum''"
  by (auto simp: unit_method_def)

lemma aggregate_fields_time_other_unit:
  assumes "md ''unit'' = Some u" and "u \<noteq> MStr ''mm/h''" and "u \<noteq> MStr ''mm''"
  shows "(\<exists>ts. md ''timestamps'' = Some ts \<and> delta_of ts = Inr w)
           \<and> aggregate_fields_time R md (Some w) = Inr (R, md)
     \<or> aggregate_fields_time R md (Some w) = Inl (BadUnit u)
     \<or> (\<exists>e. aggregate_fields_time R md (Some w) = Inl e
           \<and> aggregate_fields_time R (md(''unit'' \<mapsto> u')) (Some w) = Inl e)"
  using assms
  by (auto simp: aggregate_fields_time_def md_get_def unit_method_def ebind_def Let_def
         split: option.splits sum.splits if_splits)

lemma aggregate_fields_space_other_unit:
  assumes "md ''unit'' = Some u" and "u \<noteq> MStr ''mm/h''" and "u \<noteq> MStr ''mm''"
  shows "(md_num md ''ypixelsize'' = Inr w \<and> md_num md ''xpixelsize'' = Inr w)
           \<and> aggregate_fields_space R md (Some w) = Inr (R, md)
     \<or> aggregate_fields_space R md (Some w) = Inl (BadUnit u)
     \<or> (\<exists>e. aggregate_fields_space R md (Some w) = Inl e
           \<and> aggregate_fields_space R (md(''unit'' \<mapsto> u')) (Some w) = Inl e)"
  using assms
  by (auto simp: aggregate_fields_space_def md_get_def md_num_def unit_method_def ebind_def Let_def
         split: option.splits sum.splits if_splits)

text \<open>
  Claim C4: in \<^verbatim>\<open>aggregate_fields_time\<close> and \<^verbatim>\<open>aggregate_fields_space\<close> the unit "mm/h"
  selects the mean, the unit "mm" the sum, and any other unit makes the call fail.

  As stated the last part fails: both functions return before they look at the unit when
  the window is \<^verbatim>\<open>None\<close> or equals the current sampling interval (pixel size). With the
  unit "dBZ", timestamps 5 minutes apart and a window of 5 minutes, and with pixels of
  1000 m and a window of 1000 m, the calls succeed and return their input.
\<close>

theorem no_op_call_ignores_unit:
  "aggregate_fields_time \<lparr>shape = [2, 1, 1], data = [Fin 1, Fin 2]\<rparr>
      [''unit'' \<mapsto> MStr ''dBZ'', ''timestamps'' \<mapsto> MTimes [0, 300]] (Some 5)
     = Inr (\<lparr>shape = [2, 1, 1], data = [Fin 1, Fin 2]\<rparr>,
            [''unit'' \<mapsto> MStr ''dBZ'', ''timestamps'' \<mapsto> MTimes [0, 300]])
   \<and> aggregate_fields_space \<lparr>shape = [2, 1, 1], data = [Fin 1, Fin 2]\<rparr>
      [''unit'' \<mapsto> MStr ''dBZ'', ''ypixelsize'' \<mapsto> MNum 1000, ''xpixelsize'' \<mapsto> MNum 1000]
      (Some 1000)
     = Inr (\<lparr>shape = [2, 1, 1], data = [Fin 1, Fin 2]\<rparr>,
            [''unit'' \<mapsto> MStr ''dBZ'', ''ypixelsize'' \<mapsto> MNum 1000, ''xpixelsize'' \<mapsto> MNum 1000])"
proof -
  have "delta_of (MTimes [0, 300]) = Inr 5" by code_simp
  then show ?thesis
    by (simp add: aggregate_fields_time_def aggregate_fields_space_def md_get_def md_num_def
          mlen_def)
qed

text \<open>
  Claim C4, amended. A call with the window \<^verbatim>\<open>None\<close> returns its input and does not
  read the unit. A successful call with a window either is a no-op (the window equals the
  sampling interval, respectively both pixel sizes, and the input is returned unchanged)
  or its result is \<^verbatim>\<open>aggregate_fields\<close> with "mean" when the unit is "mm/h" and with
  "sum" when the unit is "mm", along the time axis, respectively along the y axis and then
  the x axis, with the block sizes \<^verbatim>\<open>int(window/delta)\<close>. With any other unit \<open>u\<close> a call
  with a window is a no-op, or fails with the error that names \<open>u\<close>, or fails in a check
  that precedes the choice of the operator, with an error that the same call raises with
  the units "mm" and "mm/h" too. In particular a call that is not a no-op and that succeeds
  with the unit "mm" fails with the error that names \<open>u\<close> when the unit is \<open>u\<close>.
\<close>

theorem unit_selects_reduction:
  "aggregate_fields_time R md None = Inr (R, md)
   \<and> aggregate_fields_space R md None = Inr (R, md)
   \<and> (aggregate_fields_time R md (Some w) = Inr (R', md') \<longrightarrow>
      (\<exists>ts. md ''timestamps'' = Some ts \<and> delta_of ts = Inr w \<and> R' = R \<and> md' = md)
      \<or> (\<exists>ts delta nframes. md ''timestamps'' = Some ts \<and> delta_of ts = Inr delta \<and> delta \<noteq> w
           \<and> block_size w delta = Inr nframes
           \<and> (md ''unit'' = Some (MStr ''mm/h'')
                \<and> aggregate_fields R nframes
                     (int (if length (shape R) = 3 then 0 else 1)) ''mean'' = Inr R'
              \<or> md ''unit'' = Some (MStr ''mm'')
                \<and> aggregate_fields R nframes
                     (int (if length (shape R) = 3 then 0 else 1)) ''sum'' = Inr R')))
   \<and> (aggregate_fields_space R md (Some w) = Inr (R', md') \<longrightarrow>
      (md_num md ''ypixelsize'' = Inr w \<and> md_num md ''xpixelsize'' = Inr w \<and> R' = R \<and> md' = md)
      \<or> (\<exists>ypixelsize xpixelsize nframes0 nframes1 R1.
            md_num md ''ypixelsize'' = Inr ypixelsize \<and> md_num md ''xpixelsize'' = Inr xpixelsize
            \<and> \<not> (ypixelsize = w \<and> xpixelsize = w)
            \<and> block_size w ypixelsize = Inr nframes0 \<and> block_size w xpixelsize = Inr nframes1
            \<and> (md ''unit'' = Some (MStr ''mm/h'')
                 \<and> aggregate_fields R nframes0
                      (int (if length (shape R) = 3 then 1 else 2)) ''mean'' = Inr R1
                 \<and> aggregate_fields R1 nframes1
                      (int (if length (shape R) = 3 then 2 else 3)) ''mean'' = Inr R'
               \<or> md ''unit'' = Some (MStr ''mm'')
                 \<and> aggregate_fields R nframes0
                      (int (if length (shape R) = 3 then 1 else 2)) ''sum'' = Inr R1
                 \<and> aggregate_fields R1 nframes1
                      (int (if length (shape R) = 3 then 2 else 3)) ''sum'' = Inr R')))
   \<and> (md ''unit'' = Some u \<and> u \<noteq> MStr ''mm/h'' \<and> u \<noteq> MStr ''mm'' \<longrightarrow>
        (\<exists>ts. md ''timestamps'' = Some ts \<and> delta_of ts = Inr w)
          \<and> aggregate_fields_time R md (Some w) = Inr (R, md)
      \<or> aggregate_fields_time R md (Some w) = Inl (BadUnit u)
      \<or> (\<exists>e. aggregate_fields_time R md (Some w) = Inl e
            \<and> aggregate_fields_time R (md(''unit'' \<mapsto> MStr ''mm'')) (Some w) = Inl e
            \<and> aggregate_fields_time R (md(''unit'' \<mapsto> MStr ''mm/h'')) (Some w) = Inl e))
   \<and> (md ''unit'' = Some u \<and> u \<noteq> MStr ''mm/h'' \<and> u \<noteq> MStr ''mm'' \<longrightarrow>
        (md_num md ''ypixelsize'' = Inr w \<and> md_num md ''xpixelsize'' = Inr w)
          \<and> aggregate_fields_space R md (Some w) = Inr (R, md)
      \<or> aggregate_fields_space R md (Some w) = Inl (BadUnit u)
      \<or> (\<exists>e. aggregate_fields_space R md (Some w) = Inl e
            \<and> aggregate_fields_space R (md(''unit'' \<mapsto> MStr ''mm'')) (Some w) = Inl e
            \<and> aggregate_fields_space R (md(''unit'' \<mapsto> MStr ''mm/h'')) (Some w) = Inl e))
   \<and> (md ''unit'' = Some u \<and> u \<noteq> MStr ''mm/h'' \<and> u \<noteq> MStr ''mm''
        \<and> (\<exists>p. aggregate_fields_time R (md(''unit'' \<mapsto> MStr ''mm'')) (Some w) = Inr p)
        \<and> \<not> (\<exists>ts. md ''timestamps'' = Some ts \<and> delta_of ts = Inr w) \<longrightarrow>
      aggregate_fields_time R md (Some w) = Inl (BadUnit u))
   \<and> (md ''unit'' = Some u \<and> u \<noteq> MStr ''mm/h'' \<and> u \<noteq> MStr ''mm''
        \<and> (\<exists>p. aggregate_fields_space R (md(''unit'' \<mapsto> MStr ''mm'')) (Some w) = Inr p)
        \<and> \<not> (md_num md ''ypixelsize'' = Inr w \<and> md_num md ''xpixelsize'' = Inr w) \<longrightarrow>
      aggregate_fields_space R md (Some w) = Inl (BadUnit u))"
proof -
  have N: "aggregate_fields_time R md None = Inr (R, md)"
    "aggregate_fields_space R md None = Inr (R, md)"
    by (simp_all add: aggregate_fields_time_def aggregate_fields_space_def)
  have T: "(\<exists>ts. md ''timestamps'' = Some ts \<and> delta_of ts = Inr w \<and> R' = R \<and> md' = md)
      \<or> (\<exists>ts delta nframes. md ''timestamps'' = Some ts \<and> delta_of ts = Inr delta \<and> delta \<noteq> w
           \<and> block_size w delta = Inr nframes
           \<and> (md ''unit'' = Some (MStr ''mm/h'')
                \<and> aggregate_fields R nframes
                     (int (if length (shape R) = 3 then 0 else 1)) ''mean'' = Inr R'
              \<or> md ''unit'' = Some (MStr ''mm'')
                \<and> aggregate_fields R nframes
                     (int (if length (shape R) = 3 then 0 else 1)) ''sum'' = Inr R'))"
    if "aggregate_fields_time R md (Some w) = Inr (R', md')"
  proof -
    from aggregate_fields_time_Inr[OF that] obtain unit ts delta where
      u: "md ''unit'' = Some unit" and ts: "md ''timestamps'' = Some ts"
      and d: "delta_of ts = Inr delta"
      and c: "if delta = w then R' = R \<and> md' = md
         else \<exists>nframes meth. block_size w delta = Inr nframes \<and> unit_method unit = Inr meth
               \<and> aggregate_fields R nframes
                    (int (if length (shape R) = 3 then 0 else 1)) meth = Inr R'"
      by (auto split: if_splits)
    show ?thesis
    proof (cases "delta = w")
      case True
      with c ts d show ?thesis by auto
    next
      case False
      with c obtain nframes meth where "block_size w delta = Inr nframes"
        "unit_method unit = Inr meth"
        "aggregate_fields R nframes (int (if length (shape R) = 3 then 0 else 1)) meth = Inr R'"
        by auto
      with u ts d False show ?thesis
        unfolding unit_method_Inr by blast
    qed
  qed
  have S: "(md_num md ''ypixelsize'' = Inr w \<and> md_num md ''xpixelsize'' = Inr w \<and> R' = R \<and> md' = md)
      \<or> (\<exists>ypixelsize xpixelsize nframes0 nframes1 R1.
            md_num md ''ypixelsize'' = Inr ypixelsize \<and> md_num md ''xpixelsize'' = Inr xpixelsize
            \<and> \<not> (ypixelsize = w \<and> xpixelsize = w)
            \<and> block_size w ypixelsize = Inr nframes0 \<and> block_size w xpixelsize = Inr nframes1
            \<and> (md ''unit'' = Some (MStr ''mm/h'')
                 \<and> aggregate_fields R nframes0
                      (int (if length (shape R) = 3 then 1 else 2)) ''mean'' = Inr R1
                 \<and> aggregate_fields R1 nframes1
                      (int (if length (shape R) = 3 then 2 else 3)) ''mean'' = Inr R'
               \<or> md ''unit'' = Some (MStr ''mm'')
                 \<and> aggregate_fields R nframes0
                      (int (if length (shape R) = 3 then 1 else 2)) ''sum'' = Inr R1
                 \<and> aggregate_fields R1 nframes1
                      (int (if length (shape R) = 3 then 2 else 3)) ''sum'' = Inr R'))"
    if "aggregate_fields_space R md (Some w) = Inr (R', md')"
  proof -
    from aggregate_fields_space_Inr[OF that] obtain unit ypixelsize xpixelsize where
      u: "md ''unit'' = Some unit" and py: "md_num md ''ypixelsize'' = Inr ypixelsize"
      and px: "md_num md ''xpixelsize'' = Inr xpixelsize"
      and c: "if ypixelsize = w \<and> xpixelsize = w then R' = R \<and> md' = md
         else \<exists>nframes0 nframes1 meth R1.
                 block_size w ypixelsize = Inr nframes0 \<and> block_size w xpixelsize = Inr nframes1
               \<and> unit_method unit = Inr meth
               \<and> aggregate_fields R nframes0
                    (int (if length (shape R) = 3 then 1 else 2)) meth = Inr R1
               \<and> aggregate_fields R1 nframes1
                    (int (if length (shape R) = 3 then 2 else 3)) meth = Inr R'"
      by (auto split: if_splits)
    show ?thesis
    proof (cases "ypixelsize = w \<and> xpixelsize = w")
      case True
      with c py px show ?thesis by auto
    next
      case False
      with c obtain nframes0 nframes1 meth R1 where
        "block_size w ypixelsize = Inr nframes0" "block_size w xpixelsize = Inr nframes1"
        "unit_method unit = Inr meth"
        "aggregate_fields R nframes0 (int (if length (shape R) = 3 then 1 else 2)) meth = Inr R1"
        "aggregate_fields R1 nframes1 (int (if length (shape R) = 3 then 2 else 3)) meth = Inr R'"
        by auto
      with u py px False show ?thesis
        unfolding unit_method_Inr by blast
    qed
  qed
  have OT: "(\<exists>ts. md ''timestamps'' = Some ts \<and> delta_of ts = Inr w)
          \<and> aggregate_fields_time R md (Some w) = Inr (R, md)
      \<or> aggregate_fields_time R md (Some w) = Inl (BadUnit u)
      \<or> (\<exists>e. aggregate_fields_time R md (Some w) = Inl e
            \<and> aggregate_fields_time R (md(''unit'' \<mapsto> MStr ''mm'')) (Some w) = Inl e
            \<and> aggregate_fields_time R (md(''unit'' \<mapsto> MStr ''mm/h'')) (Some w) = Inl e)"
    if "md ''unit'' = Some u" "u \<noteq> MStr ''mm/h''" "u \<noteq> MStr ''mm''"
    using that aggregate_fields_time_other_unit[where md=md and u=u and w=w and R=R and u'="MStr ''mm''"]
      aggregate_fields_time_other_unit[where md=md and u=u and w=w and R=R and u'="MStr ''mm/h''"]
    by auto
  have OS: "(md_num md ''ypixelsize'' = Inr w \<and> md_num md ''xpixelsize'' = Inr w)
          \<and> aggregate_fields_space R md (Some w) = Inr (R, md)
      \<or> aggregate_fields_space R md (Some w) = Inl (BadUnit u)
      \<or> (\<exists>e. aggregate_fields_space R md (Some w) = Inl e
            \<and> aggregate_fields_space R (md(''unit'' \<mapsto> MStr ''mm'')) (Some w) = Inl e
            \<and> aggregate_fields_space R (md(''unit'' \<mapsto> MStr ''mm/h'')) (Some w) = Inl e)"
    if "md ''unit'' = Some u" "u \<noteq> MStr ''mm/h''" "u \<noteq> MStr ''mm''"
    using that aggregate_fields_space_other_unit[where md=md and u=u and w=w and R=R and u'="MStr ''mm''"]
      aggregate_fields_space_other_unit[where md=md and u=u and w=w and R=R and u'="MStr ''mm/h''"]
    by auto
  have FT: "aggregate_fields_time R md (Some w) = Inl (BadUnit u)"
    if "md ''unit'' = Some u" "u \<noteq> MStr ''mm/h''" "u \<noteq> MStr ''mm''"
      "\<exists>p. aggregate_fields_time R (md(''unit'' \<mapsto> MStr ''mm'')) (Some w) = Inr p"
      "\<not> (\<exists>ts. md ''timestamps'' = Some ts \<and> delta_of ts = Inr w)"
    using OT[OF that(1,2,3)] that(4,5) by auto
  have FS: "aggregate_fields_space R md (Some w) = Inl (BadUnit u)"
    if "md ''unit'' = Some u" "u \<noteq> MStr ''mm/h''" "u \<noteq> MStr ''mm''"
      "\<exists>p. aggregate_fields_space R (md(''unit'' \<mapsto> MStr ''mm'')) (Some w) = Inr p"
      "\<not> (md_num md ''ypixelsize'' = Inr w \<and> md_num md ''xpixelsize'' = Inr w)"
    using OS[OF that(1,2,3)] that(4,5) by auto
  from N T S OT OS FT FS show ?thesis by blast
qed

text \<open>
  A 2x2x2 series with timestamps 4 minutes apart and unit pixels, the window of 8 minutes
  and the window of 2 metres: with the unit "mm/h" the result is the mean over blocks of 2
  frames, respectively over 2x2 pixels, with the unit "mm" it is the sum, and with the unit
  "dBZ" both calls fail with the error that names the unit. With the window \<^verbatim>\<open>None\<close>
  the unit "dBZ" is not looked at.
\<close>

theorem unit_selects_reduction_witness:
  "map_sum id fst (aggregate_fields_time \<lparr>shape = [2, 2, 2], data = map Fin [1, 2, 3, 4, 5, 6, 7, 8]\<rparr>
        [''unit'' \<mapsto> MStr ''mm/h'', ''timestamps'' \<mapsto> MTimes [0, 240],
         ''ypixelsize'' \<mapsto> MNum 1, ''xpixelsize'' \<mapsto> MNum 1] (Some 8))
     = Inr \<lparr>shape = [1, 2, 2], data = map Fin [3, 4, 5, 6]\<rparr>
   \<and> map_sum id fst (aggregate_fields_time \<lparr>shape = [2, 2, 2], data = map Fin [1, 2, 3, 4, 5, 6, 7, 8]\<rparr>
        [''unit'' \<mapsto> MStr ''mm'', ''timestamps'' \<mapsto> MTimes [0, 240],
         ''ypixelsize'' \<mapsto> MNum 1, ''xpixelsize'' \<mapsto> MNum 1] (Some 8))
     = Inr \<lparr>shape = [1, 2, 2], data = map Fin [6, 8, 10, 12]\<rparr>
   \<and> map_sum id fst (aggregate_fields_space \<lparr>shape = [2, 2, 2], data = map Fin [1, 2, 3, 4, 5, 6, 7, 8]\<rparr>
        [''unit'' \<mapsto> MStr ''mm/h'', ''timestamps'' \<mapsto> MTimes [0, 240],
         ''ypixelsize'' \<mapsto> MNum 1, ''xpixelsize'' \<mapsto> MNum 1] (Some 2))
     = Inr \<lparr>shape = [2, 1, 1], data = map Fin [5 / 2, 13 / 2]\<rparr>
   \<and> map_sum id fst (aggregate_fields_space \<lparr>shape = [2, 2, 2], data = map Fin [1, 2, 3, 4, 5, 6, 7, 8]\<rparr>
        [''unit'' \<mapsto> MStr ''mm'', ''timestamps'' \<mapsto> MTimes [0, 240],
         ''ypixelsize'' \<mapsto> MNum 1, ''xpixelsize'' \<mapsto> MNum 1] (Some 2))
     = Inr \<lparr>shape = [2, 1, 1], data = map Fin [10, 26]\<rparr>
   \<and> aggregate_fields_time \<lparr>shape = [2, 2, 2], data = map Fin [1, 2, 3, 4, 5, 6, 7, 8]\<rparr>
        [''unit'' \<mapsto> MStr ''dBZ'', ''timestamps'' \<mapsto> MTimes [0, 240],
         ''ypixelsize'' \<mapsto> MNum 1, ''xpixelsize'' \<mapsto> MNum 1] (Some 8)
     = Inl (BadUnit (MStr ''dBZ''))
   \<and> aggregate_fields_space \<lparr>shape = [2, 2, 2], data = map Fin [1, 2, 3, 4, 5, 6, 7, 8]\<rparr>
        [''unit'' \<mapsto> MStr ''dBZ'', ''timestamps'' \<mapsto> MTimes [0, 240],
         ''ypixelsize'' \<mapsto> MNum 1, ''xpixelsize'' \<mapsto> MNum 1] (Some 2)
     = Inl (BadUnit (MStr ''dBZ''))
   \<and> aggregate_fields_time \<lparr>shape = [2, 2, 2], data = map Fin [1, 2, 3, 4, 5, 6, 7, 8]\<rparr>
        [''unit'' \<mapsto> MStr ''dBZ'', ''timestamps'' \<mapsto> MTimes [0, 240],
         ''ypixelsize'' \<mapsto> MNum 1, ''xpixelsize'' \<mapsto> MNum 1] None
     = Inr (\<lparr>shape = [2, 2, 2], data = map Fin [1, 2, 3, 4, 5, 6, 7, 8]\<rparr>,
        [''unit'' \<mapsto> MStr ''dBZ'', ''timestamps'' \<mapsto> MTimes [0, 240],
         ''ypixelsize'' \<mapsto> MNum 1, ''xpixelsize'' \<mapsto> MNum 1])"
proof -
  let ?A = "\<lparr>shape = [2, 2, 2], data = map Fin [1, 2, 3, 4, 5, 6, 7, 8]\<rparr>"
  let ?h = "[''unit'' \<mapsto> MStr ''mm/h'', ''timestamps'' \<mapsto> MTimes [0, 240],
         ''ypixelsize'' \<mapsto> MNum 1, ''xpixelsize'' \<mapsto> MNum (1::rat)]"
  let ?m = "[''unit'' \<mapsto> MStr ''mm'', ''timestamps'' \<mapsto> MTimes [0, 240],
         ''ypixelsize'' \<mapsto> MNum 1, ''xpixelsize'' \<mapsto> MNum (1::rat)]"
  let ?z = "[''unit'' \<mapsto> MStr ''dBZ'', ''timestamps'' \<mapsto> MTimes [0, 240],
         ''ypixelsize'' \<mapsto> MNum 1, ''xpixelsize'' \<mapsto> MNum (1::rat)]"
  have d: "delta_of (MTimes [0, 240]) = Inr 4" by code_simp
  have b: "block_size 8 4 = Inr 2" "block_size 2 1 = Inr 2" by code_simp+
  have a1: "aggregate_fields ?A 2 0 ''mean'' = Inr \<lparr>shape = [1, 2, 2], data = map Fin [3, 4, 5, 6]\<rparr>"
    by code_simp
  have a2: "aggregate_fields ?A 2 0 ''sum'' = Inr \<lparr>shape = [1, 2, 2], data = map Fin [6, 8, 10, 12]\<rparr>"
    by code_simp
  have a3: "aggregate_fields ?A 2 1 ''mean'' = Inr \<lparr>shape = [2, 1, 2], data = map Fin [2, 3, 6, 7]\<rparr>"
    "aggregate_fields \<lparr>shape = [2, 1, 2], data = map Fin [2, 3, 6, 7]\<rparr> 2 2 ''mean''
       = Inr \<lparr>shape = [2, 1, 1], data = map Fin [5 / 2, 13 / 2]\<rparr>"
    by code_simp+
  have a4: "aggregate_fields ?A 2 1 ''sum'' = Inr \<lparr>shape = [2, 1, 2], data = map Fin [4, 6, 12, 14]\<rparr>"
    "aggregate_fields \<lparr>shape = [2, 1, 2], data = map Fin [4, 6, 12, 14]\<rparr> 2 2 ''sum''
       = Inr \<lparr>shape = [2, 1, 1], data = map Fin [10, 26]\<rparr>"
    by code_simp+
  have "map_sum id (\<lambda>p. ()) (aggregate_fields_time ?A ?h (Some 8)) = Inr ()" by code_simp
  then obtain R1 md1 where t1: "aggregate_fields_time ?A ?h (Some 8) = Inr (R1, md1)"
    by (cases "aggregate_fields_time ?A ?h (Some 8)") auto
  have "map_sum id (\<lambda>p. ()) (aggregate_fields_time ?A ?m (Some 8)) = Inr ()" by code_simp
  then obtain R2 md2 where t2: "aggregate_fields_time ?A ?m (Some 8) = Inr (R2, md2)"
    by (cases "aggregate_fields_time ?A ?m (Some 8)") auto
  have "map_sum id (\<lambda>p. ()) (aggregate_fields_space ?A ?h (Some 2)) = Inr ()" by code_simp
  then obtain R3 md3 where t3: "aggregate_fields_space ?A ?h (Some 2) = Inr (R3, md3)"
    by (cases "aggregate_fields_space ?A ?h (Some 2)") auto
  have "map_sum id (\<lambda>p. ()) (aggregate_fields_space ?A ?m (Some 2)) = Inr ()" by code_simp
  then obtain R4 md4 where t4: "aggregate_fields_space ?A ?m (Some 2) = Inr (R4, md4)"
    by (cases "aggregate_fields_space ?A ?m (Some 2)") auto
  have 1: "R1 = \<lparr>shape = [1, 2, 2], data = map Fin [3, 4, 5, 6]\<rparr>"
    using unit_selects_reduction[of ?A ?h 8 R1 md1, THEN conjunct2, THEN conjunct2, THEN conjunct1]
      t1 d b a1
    by auto
  have 2: "R2 = \<lparr>shape = [1, 2, 2], data = map Fin [6, 8, 10, 12]\<rparr>"
    using unit_selects_reduction[of ?A ?m 8 R2 md2, THEN conjunct2, THEN conjunct2, THEN conjunct1]
      t2 d b a2
    by auto
  have 3: "R3 = \<lparr>shape = [2, 1, 1], data = map Fin [5 / 2, 13 / 2]\<rparr>"
    using unit_selects_reduction[of ?A ?h 2 R3 md3, THEN conjunct2, THEN conjunct2, THEN conjunct2,
        THEN conjunct1] t3 b a3
    by (auto simp: md_num_def)
  have 4: "R4 = \<lparr>shape = [2, 1, 1], data = map Fin [10, 26]\<rparr>"
    using unit_selects_reduction[of ?A ?m 2 R4 md4, THEN conjunct2, THEN conjunct2, THEN conjunct2,
        THEN conjunct1] t4 b a4
    by (auto simp: md_num_def)
  have zm: "?z(''unit'' \<mapsto> MStr ''mm'') = ?m" by (rule ext) simp
  have 5: "aggregate_fields_time ?A ?z (Some 8) = Inl (BadUnit (MStr ''dBZ''))"
    using unit_selects_reduction[where R="?A" and md="?z" and u="MStr ''dBZ''" and w=8, THEN conjunct2, THEN conjunct2,
        THEN conjunct2, THEN conjunct2, THEN conjunct2, THEN conjunct2, THEN conjunct1] t2 d
    by (simp add: zm)
  have 6: "aggregate_fields_space ?A ?z (Some 2) = Inl (BadUnit (MStr ''dBZ''))"
    using unit_selects_reduction[where R="?A" and md="?z" and u="MStr ''dBZ''" and w=2, THEN conjunct2, THEN conjunct2,
        THEN conjunct2, THEN conjunct2, THEN conjunct2, THEN conjunct2, THEN conjunct2] t4
    by (simp add: zm md_num_def)
  have 7: "aggregate_fields_time ?A ?z None = Inr (?A, ?z)"
    using unit_selects_reduction[of ?A ?z, THEN conjunct1] .
  from t1 t2 t3 t4 1 2 3 4 5 6 7 show ?thesis by simp
qed



text \<open>
  Claim C10: \<^verbatim>\<open>aggregate_fields_time\<close> checks that the time spanned, \<open>t * delta\<close>, is a
  multiple of the window (not that \<open>delta\<close> divides the window), accepts every such
  window, and aggregates blocks of \<open>floor (window / delta)\<close> frames; when \<open>delta\<close> does not
  divide the window, an output step covers \<open>floor (window / delta) * delta\<close> minutes while
  \<^verbatim>\<open>accutime\<close> records the window.

  As stated this fails twice. A window of which the time spanned is a multiple is not
  always accepted: with 15 frames 4 minutes apart and a window of 10 minutes the 60
  minutes are 6 windows and the check of the function passes, but the block size 2 does
  not divide 15 and \<^verbatim>\<open>aggregate_fields\<close> refuses the call. And the block size is the
  truncated quotient of two floats, not the floor of the quotient: with 210 frames
  92 seconds apart and a window of 23 minutes the quotient of 23 by 92/60 is 15, but the
  sampling interval is the float nearest to 92/60, the float quotient is the float below
  15, and the call returns 15 steps of 14 frames; with frames 100 seconds apart and a
  window of 5 minutes the exact quotient of the floats is below 3 and rounds to 3, so the
  block size is 3 and not its floor 2.
\<close>

theorem window_dividing_span_is_refused:
  "delta_of (MTimes (map (\<lambda>i. 240 * int i) [0..<15])) = Inr 4
   \<and> int_times_float 15 4 = Finite 60
   \<and> float_mod (Finite 60) 10 = Inr (Finite 0)
   \<and> aggregate_fields_time \<lparr>shape = [15, 1, 1], data = replicate 15 (Fin 1)\<rparr>
        [''unit'' \<mapsto> MStr ''mm'', ''timestamps'' \<mapsto> MTimes (map (\<lambda>i. 240 * int i) [0..<15])]
        (Some 10) = Inl (WindowNoSplit 2 15)
   \<and> delta_of (MTimes (map (\<lambda>i. 92 * int i) [0..<210]))
        = Inr (6905519428634761 / 4503599627370496)
   \<and> \<lfloor>(23::rat) / (92 / 60)\<rfloor> = 15
   \<and> block_size 23 (6905519428634761 / 4503599627370496) = Inr 14
   \<and> map_sum id (\<lambda>p. shape (fst p))
        (aggregate_fields_time \<lparr>shape = [210, 1, 1], data = replicate 210 (Fin 1)\<rparr>
          [''unit'' \<mapsto> MStr ''mm'', ''timestamps'' \<mapsto> MTimes (map (\<lambda>i. 92 * int i) [0..<210])]
          (Some 23)) = Inr [15, 1, 1]
   \<and> delta_of (MTimes [0, 100]) = Inr (7505999378950827 / 4503599627370496)
   \<and> \<lfloor>(5::rat) / (7505999378950827 / 4503599627370496)\<rfloor> = 2
   \<and> block_size 5 (7505999378950827 / 4503599627370496) = Inr 3"
proof -
  have 1: "delta_of (MTimes (map (\<lambda>i. 240 * int i) [0..<15])) = Inr 4" by code_simp
  have 2: "int_times_float 15 4 = Finite 60" by code_simp
  have 3: "float_mod (Finite 60) 10 = Inr (Finite 0)" by code_simp
  have 4: "map_sum id (\<lambda>p. ())
      (aggregate_fields_time \<lparr>shape = [15, 1, 1], data = replicate 15 (Fin 1)\<rparr>
        [''unit'' \<mapsto> MStr ''mm'', ''timestamps'' \<mapsto> MTimes (map (\<lambda>i. 240 * int i) [0..<15])]
        (Some 10)) = Inl (WindowNoSplit 2 15)"
    by code_simp
  have 5: "delta_of (MTimes (map (\<lambda>i. 92 * int i) [0..<210]))
        = Inr (6905519428634761 / 4503599627370496)" by code_simp
  have 6: "\<lfloor>(23::rat) / (92 / 60)\<rfloor> = 15" by simp
  have 7: "block_size 23 (6905519428634761 / 4503599627370496) = Inr 14" by code_simp
  have 8: "map_sum id (\<lambda>p. shape (fst p))
        (aggregate_fields_time \<lparr>shape = [210, 1, 1], data = replicate 210 (Fin 1)\<rparr>
          [''unit'' \<mapsto> MStr ''mm'', ''timestamps'' \<mapsto> MTimes (map (\<lambda>i. 92 * int i) [0..<210])]
          (Some 23)) = Inr [15, 1, 1]"
    by code_simp
  have 9: "delta_of (MTimes [0, 100]) = Inr (7505999378950827 / 4503599627370496)" by code_simp
  have 10: "\<lfloor>(5::rat) / (7505999378950827 / 4503599627370496)\<rfloor> = 2"
    by (rule floor_unique) simp_all
  have 11: "block_size 5 (7505999378950827 / 4503599627370496) = Inr 3" by code_simp
  from 4 have 4: "aggregate_fields_time \<lparr>shape = [15, 1, 1], data = replicate 15 (Fin 1)\<rparr>
        [''unit'' \<mapsto> MStr ''mm'', ''timestamps'' \<mapsto> MTimes (map (\<lambda>i. 240 * int i) [0..<15])]
        (Some 10) = Inl (WindowNoSplit 2 15)"
    by (cases "aggregate_fields_time \<lparr>shape = [15, 1, 1], data = replicate 15 (Fin 1)\<rparr>
        [''unit'' \<mapsto> MStr ''mm'', ''timestamps'' \<mapsto> MTimes (map (\<lambda>i. 240 * int i) [0..<15])]
        (Some 10)") simp_all
  from 1 2 3 4 5 6 7 8 9 10 11 show ?thesis by (simp only: simp_thms)
qed

text \<open>
  Claim C10, amended. The check of \<^verbatim>\<open>aggregate_fields_time\<close> itself is on the float
  remainder of \<open>t * delta\<close> by the window; the block size is \<^verbatim>\<open>int(window/delta)\<close>, the
  float quotient truncated, and \<^verbatim>\<open>aggregate_fields\<close> then requires that it divides the
  number \<open>t\<close> of frames. So in every successful call that is not a no-op, the window and
  the sampling interval are positive, the float \<open>t * delta\<close> is an integer multiple of the
  window, the block size is positive, divides \<open>t\<close>, and lies between the floor and the
  ceiling of the exact quotient of the window by the float \<open>delta\<close> (when this quotient is
  below \<open>2^53\<close>); the result is \<^verbatim>\<open>aggregate_fields\<close> with this block size, and
  \<^verbatim>\<open>accutime\<close> is the window, although an output step covers block size times \<open>delta\<close>
  minutes, which is not the window whenever the window is not an integer multiple of
  \<open>delta\<close>.
\<close>

theorem temporal_block_and_accutime:
  assumes "aggregate_fields_time R md (Some w) = Inr (R', md')"
    and "md ''timestamps'' = Some ts"
    and "delta_of ts = Inr delta" and "delta \<noteq> w"
    and "axis = (if length (shape R) = 3 then 0 else 1)"
  shows "\<exists>nframes span. 0 < w \<and> 0 < delta
    \<and> int_times_float (shape R ! axis) delta = Finite span
    \<and> float_mod (Finite span) w = Inr (Finite 0)
    \<and> (\<exists>j::int. span = of_int j * w)
    \<and> block_size w delta = Inr nframes
    \<and> nframes = trunc (round64 (w / delta))
    \<and> 0 < nframes
    \<and> int (shape R ! axis) mod nframes = 0
    \<and> (w / delta < 2 ^ 53 \<longrightarrow> \<lfloor>w / delta\<rfloor> \<le> nframes \<and> nframes \<le> \<lceil>w / delta\<rceil>)
    \<and> (\<exists>unit meth. md ''unit'' = Some unit \<and> unit_method unit = Inr meth
          \<and> aggregate_fields R nframes (int axis) meth = Inr R')
    \<and> md' ''accutime'' = Some (MNum w)
    \<and> (w / delta \<notin> \<int> \<longrightarrow> of_int nframes * delta \<noteq> w)"
proof -
  from aggregate_fields_time_Inr[OF assms(1)] assms(2,3,4,5)
  obtain unit nframes meth ts' where
    rank: "length (shape R) = 3 \<or> length (shape R) = 4"
    and u: "md ''unit'' = Some unit" and um: "unit_method unit = Inr meth"
    and fm: "float_mod (int_times_float (shape R ! axis) delta) w = Inr (Finite 0)"
    and k: "block_size w delta = Inr nframes"
    and agg: "aggregate_fields R nframes (int axis) meth = Inr R'"
    and md': "(case md ''leadtimes'' of
                 None \<Rightarrow> md' = md(''accutime'' := Some (MNum w), ''timestamps'' := Some ts')
               | Some lt \<Rightarrow> \<exists>lt'.
                   mstrided (nat (nframes - 1)) (nat nframes) lt = Inr lt'
                   \<and> md' = md(''accutime'' := Some (MNum w), ''timestamps'' := Some ts',
                              ''leadtimes'' := Some lt'))"
    by auto
  from aggregate_fields_window_pos[OF agg] have pos: "0 < nframes" .
  from delta_of_nonneg[OF assms(3)] have "0 \<le> delta" .
  from block_size_pos[OF k pos this] have w: "0 < w" and d: "0 < delta" by simp_all
  from fm w obtain span where sp: "int_times_float (shape R ! axis) delta = Finite span"
    by (cases "int_times_float (shape R ! axis) delta") (auto simp: float_mod_def)
  from d have "0 \<le> delta" by simp
  from int_times_float_nonneg[OF sp this] have sp0: "0 \<le> span" .
  from fm sp have fm': "float_mod (Finite span) w = Inr (Finite 0)" by simp
  from float_mod_zero_multiple[OF fm' sp0 w] have mult: "\<exists>j::int. span = of_int j * w" ..
  from k have tr: "nframes = trunc (round64 (w / delta))"
    by (auto simp: block_size_def float_div_def py_int_def to_float_def ebind_eq_Inr
          split: if_splits pyfloat.splits)
  from rank assms(5) have "axis < length (shape R)" by auto
  from aggregate_fields_window_divides[OF agg this]
  have dv: "int (shape R ! axis) mod nframes = 0" by simp
  have bd: "w / delta < 2 ^ 53 \<longrightarrow> \<lfloor>w / delta\<rfloor> \<le> nframes \<and> nframes \<le> \<lceil>w / delta\<rceil>"
    using block_size_bounds[OF k w d] by blast
  have ag: "\<exists>unit meth. md ''unit'' = Some unit \<and> unit_method unit = Inr meth
          \<and> aggregate_fields R nframes (int axis) meth = Inr R'"
    using u um agg by blast
  have ac: "md' ''accutime'' = Some (MNum w)"
    using md' by (cases "md ''leadtimes''") auto
  have ne: "w / delta \<notin> \<int> \<longrightarrow> of_int nframes * delta \<noteq> w"
  proof (intro impI notI)
    assume "w / delta \<notin> \<int>" and "of_int nframes * delta = w"
    from this(2) d have "w / delta = of_int nframes" by (simp add: field_simps)
    with \<open>w / delta \<notin> \<int>\<close> show False by simp
  qed
  show ?thesis
    apply (rule exI[of _ nframes])
    apply (rule exI[of _ span])
    apply (intro conjI)
    apply (fact w d sp fm' mult k tr pos dv bd ag ac ne)+
    done
qed

text \<open>
  Ten frames 4 minutes apart, with the values 1 to 10 in millimetres, and a window of 10
  minutes: the 40 minutes are 4 windows, the block size is 2, the 5 output steps are the
  sums of 2 frames, 8 minutes each, and \<^verbatim>\<open>accutime\<close> is 10.
\<close>

theorem temporal_block_and_accutime_witness:
  "\<exists>R' md'. aggregate_fields_time \<lparr>shape = [10, 1, 1], data = map Fin [1, 2, 3, 4, 5, 6, 7, 8, 9, 10]\<rparr>
        [''unit'' \<mapsto> MStr ''mm'', ''timestamps'' \<mapsto> MTimes (map (\<lambda>i. 240 * int i) [0..<10])]
        (Some 10) = Inr (R', md')
     \<and> delta_of (MTimes (map (\<lambda>i. 240 * int i) [0..<10])) = Inr 4
     \<and> int_times_float 10 4 = Finite 40
     \<and> block_size 10 4 = Inr 2
     \<and> (10::rat) / 4 \<notin> \<int>
     \<and> R' = \<lparr>shape = [5, 1, 1], data = map Fin [3, 7, 11, 15, 19]\<rparr>
     \<and> md' ''accutime'' = Some (MNum 10)
     \<and> rat_of_int 2 * 4 \<noteq> 10"
proof -
  let ?A = "\<lparr>shape = [10, 1, 1], data = map Fin [1, 2, 3, 4, 5, 6, 7, 8, 9, 10]\<rparr>"
  let ?ts = "MTimes (map (\<lambda>i. 240 * int i) [0..<10])"
  let ?md = "[''unit'' \<mapsto> MStr ''mm'', ''timestamps'' \<mapsto> ?ts]"
  have "map_sum id (\<lambda>p. ()) (aggregate_fields_time ?A ?md (Some 10)) = Inr ()"
    by code_simp
  then obtain R' md' where t: "aggregate_fields_time ?A ?md (Some 10) = Inr (R', md')"
    by (cases "aggregate_fields_time ?A ?md (Some 10)") auto
  have ts: "?md ''timestamps'' = Some ?ts" by simp
  have d: "delta_of ?ts = Inr 4" by code_simp
  have sp: "int_times_float 10 4 = Finite 40" by code_simp
  have b: "block_size 10 4 = Inr 2" by code_simp
  have a: "aggregate_fields ?A 2 0 ''sum'' = Inr \<lparr>shape = [5, 1, 1], data = map Fin [3, 7, 11, 15, 19]\<rparr>"
    by code_simp
  have fl: "\<lfloor>(10::rat) / 4\<rfloor> = 2" by (rule floor_unique) simp_all
  have ni: "(10::rat) / 4 \<notin> \<int>"
  proof
    assume "(10::rat) / 4 \<in> \<int>"
    then have "of_int \<lfloor>(10::rat) / 4\<rfloor> = (10::rat) / 4" by (simp only: of_int_floor)
    then show False unfolding fl by simp
  qed
  have ax: "(0::nat) = (if length (shape ?A) = 3 then 0 else 1)" by simp
  have ne: "(4::rat) \<noteq> 10" by simp
  from temporal_block_and_accutime[OF t ts d ne ax] obtain nframes where
    n: "block_size 10 4 = Inr nframes"
    and ag: "\<exists>unit meth. ?md ''unit'' = Some unit \<and> unit_method unit = Inr meth
          \<and> aggregate_fields ?A nframes (int 0) meth = Inr R'"
    and ac: "md' ''accutime'' = Some (MNum 10)"
    and cv: "(10::rat) / 4 \<notin> \<int> \<longrightarrow> rat_of_int nframes * 4 \<noteq> 10"
    by blast
  from n b have n2: "nframes = 2" by simp
  from ag have "aggregate_fields ?A 2 0 ''sum'' = Inr R'"
    unfolding n2 by (auto simp: unit_method_def)
  with a have R': "R' = \<lparr>shape = [5, 1, 1], data = map Fin [3, 7, 11, 15, 19]\<rparr>" by simp
  from cv ni have "rat_of_int 2 * 4 \<noteq> 10" unfolding n2 by blast
  with t d sp b ni R' ac show ?thesis by blast
qed

subsection \<open>Multi-indices and \<^verbatim>\<open>aggregate_fields\<close>\<close>

lemma length_swap [simp]: "length (swap a b xs) = length xs"
  by (simp add: swap_def)

lemma nth_swap:
  assumes "a < length xs" "b < length xs" "i < length xs"
  shows "swap a b xs ! i = (if i = b then xs ! a else if i = a then xs ! b else xs ! i)"
  using assms by (simp add: swap_def nth_list_update)

lemma swap_swap: "a < length xs \<Longrightarrow> b < length xs \<Longrightarrow> swap a b (swap a b xs) = xs"
  by (rule nth_equalityI) (auto simp: nth_swap)

lemma prod_list_swap:
  "a < length s \<Longrightarrow> b < length s \<Longrightarrow> prod_list (swap a b s) = prod_list (s :: nat list)"
  unfolding swap_def by (metis mset_swap prod_mset_prod_list)

lemma swap_update_0:
  assumes "a < length xs"
  shows "swap a 0 ((swap a 0 xs)[0 := v]) = xs[a := v]"
proof -
  from assms have "0 < length xs" by (cases xs) auto
  with assms show ?thesis
    by (intro nth_equalityI) (auto simp: nth_swap nth_list_update)
qed

lemma swap_0_update:
  assumes "a < length xs"
  shows "swap a 0 (xs[0 := v]) = (swap a 0 xs)[a := v]"
proof -
  from assms have "0 < length xs" by (cases xs) auto
  with assms show ?thesis
    by (intro nth_equalityI) (auto simp: nth_swap nth_list_update)
qed

lemma valid_index_list_all2: "valid_index s idx \<longleftrightarrow> list_all2 (\<lambda>i d. i < d) idx s"
  by (auto simp: valid_index_def list_all2_conv_all_nth)

lemma valid_index_swap:
  assumes "a < length s" "b < length s" "valid_index (swap a b s) idx"
  shows "valid_index s (swap a b idx)"
  using assms unfolding valid_index_def
  by (auto simp: nth_swap)

lemma ravel_less: "valid_index s idx \<Longrightarrow> ravel s idx < prod_list s"
  unfolding valid_index_list_all2
proof (induction idx s rule: list_all2_induct)
  case Nil
  then show ?case by simp
next
  case (Cons i idx d s)
  then have "i * prod_list s + ravel s idx < (i + 1) * prod_list s" by simp
  also from Cons have "\<dots> \<le> d * prod_list s" by (intro mult_le_mono1) simp
  finally show ?case by simp
qed

lemma unravel_ravel: "valid_index s idx \<Longrightarrow> unravel s (ravel s idx) = idx"
  unfolding valid_index_list_all2
proof (induction idx s rule: list_all2_induct)
  case Nil
  then show ?case by simp
next
  case (Cons i idx d s)
  then have "ravel s idx < prod_list s"
    by (simp add: ravel_less valid_index_list_all2)
  with Cons show ?case by simp
qed

lemma get_swapaxes:
  assumes "wf_array R" "a < length (shape R)" "b < length (shape R)"
    and "valid_index (swap a b (shape R)) idx"
  shows "get (swapaxes a b R) idx = get R (swap a b idx)"
proof -
  from assms have "ravel (swap a b (shape R)) idx < length (data R)"
    using ravel_less[OF assms(4)] by (simp add: wf_array_def prod_list_swap)
  then show ?thesis
    using assms(4) by (simp add: get_def swapaxes_def unravel_ravel)
qed


lemma norm_axis_less: "norm_axis n axis = Inr a \<Longrightarrow> a < n"
proof -
  assume "norm_axis n axis = Inr a"
  then have a: "a = nat (axis mod int n)" and n: "0 < int n"
    by (auto simp: norm_axis_def split: if_splits)
  from n have "axis mod int n < int n" "0 \<le> axis mod int n"
    by simp_all
  with a show ?thesis by linarith
qed

lemma swapaxes_shape [simp]: "shape (swapaxes a b R) = swap a b (shape R)"
  by (simp add: swapaxes_def)

lemma swapaxes_length [simp]: "length (data (swapaxes a b R)) = length (data R)"
  by (simp add: swapaxes_def)

lemma wf_swapaxes:
  "wf_array R \<Longrightarrow> a < length (shape R) \<Longrightarrow> b < length (shape R) \<Longrightarrow> wf_array (swapaxes a b R)"
  by (simp add: wf_array_def prod_list_swap)

lemma swap_0_split:
  assumes "a < length s"
  shows "swap a 0 s = s ! a # tl (swap a 0 s)"
proof -
  from assms have "0 < length s" by (cases s) auto
  with assms have "swap a 0 s ! 0 = s ! a" by (simp add: nth_swap)
  moreover from \<open>0 < length s\<close> have "swap a 0 s \<noteq> []" by (auto simp: swap_def)
  ultimately show ?thesis by (cases "swap a 0 s") auto
qed

lemma valid_index_Cons: "valid_index (d # s) (i # idx) \<longleftrightarrow> i < d \<and> valid_index s idx"
  by (simp add: valid_index_list_all2)

lemma valid_index_ConsE:
  assumes "valid_index (d # s) idx"
  obtains i rest where "idx = i # rest" "i < d" "valid_index s rest"
  using assms by (cases idx) (auto simp: valid_index_list_all2)


lemma aggregate_fields_result:
  assumes wf: "wf_array R"
    and ax: "norm_axis (length (shape R)) axis = Inr a"
    and n: "0 < n" and N: "0 < shape R ! a" and dv: "n dvd shape R ! a"
    and f: "reducer (lower meth) = Some f"
  defines "K \<equiv> shape R ! a div n"
  defines "M \<equiv> prod_list (tl (swap a 0 (shape R)))"
  shows "aggregate_fields R (int n) axis meth =
    Inr (swapaxes a 0
          \<lparr>shape = (swap a 0 (shape R))[0 := K],
           data = data (reduce_axis1 f \<lparr>shape = [K, n, M], data = data (swapaxes a 0 R)\<rparr>)\<rparr>)"
proof -
  from ax have a: "a < length (shape R)" by (rule norm_axis_less)
  have sp: "swap a 0 (shape R) = shape R ! a # tl (swap a 0 (shape R))"
    using a by (rule swap_0_split)
  have "prod_list (swap a 0 (shape R)) = prod_list (shape R)"
    using a by (intro prod_list_swap) auto
  with sp have pr: "prod_list (shape R) = shape R ! a * M"
    unfolding M_def by (metis prod_list.Cons)
  with wf have len: "length (data R) = shape R ! a * M"
    by (simp add: wf_array_def)
  from dv have Kn: "K * n = shape R ! a"
    unfolding K_def by simp
  from n have dvi: "int (shape R ! a) mod int n = 0"
    using dv by (metis of_nat_mod mod_eq_0_iff_dvd of_nat_0)
  have Ki: "int (shape R ! a) div int n = int K"
    unfolding K_def by (simp add: zdiv_int)
  have rr: "reshape_rows (shape R ! a) (swapaxes a 0 R)
      = Inr ((swapaxes a 0 R)\<lparr>shape := [shape R ! a, M]\<rparr>)"
    using N len by (simp add: reshape_rows_def)
  have rb: "reshape_blocks (int K) (int n) M ((swapaxes a 0 R)\<lparr>shape := [shape R ! a, M]\<rparr>)
      = Inr ((swapaxes a 0 R)\<lparr>shape := [K, n, M]\<rparr>)"
    using len Kn by (simp add: reshape_blocks_def reshape_def)
  have B: "(swapaxes a 0 R)\<lparr>shape := [K, n, M]\<rparr> = \<lparr>shape = [K, n, M], data = data (swapaxes a 0 R)\<rparr>"
    by (simp add: swapaxes_def)
  have lq: "length (data (reduce_axis1 f \<lparr>shape = [K, n, M], data = data (swapaxes a 0 R)\<rparr>)) = K * M"
    by (simp add: reduce_axis1_def)
  have "prod_list ((swap a 0 (shape R))[0 := K]) = K * M"
    by (subst sp) (simp add: M_def)
  with lq have rs: "reshape ((swap a 0 (shape R))[0 := K])
         (reduce_axis1 f \<lparr>shape = [K, n, M], data = data (swapaxes a 0 R)\<rparr>)
      = Inr \<lparr>shape = (swap a 0 (shape R))[0 := K],
           data = data (reduce_axis1 f \<lparr>shape = [K, n, M], data = data (swapaxes a 0 R)\<rparr>)\<rparr>"
    by (simp add: reshape_def reduce_axis1_def)
  from n ax dvi f rr rb rs show ?thesis
    by (simp add: aggregate_fields_def Let_def Ki B)
qed


lemma aggregate_fields_blocks:
  assumes wf: "wf_array R"
    and ax: "norm_axis (length (shape R)) axis = Inr a"
    and n: "0 < n" and N: "0 < shape R ! a" and dv: "n dvd shape R ! a"
    and f: "reducer (lower meth) = Some f"
  shows "\<exists>out. aggregate_fields R (int n) axis meth = Inr out
    \<and> wf_array out
    \<and> shape out = (shape R)[a := shape R ! a div n]
    \<and> (\<forall>idx. valid_index (shape out) idx \<longrightarrow>
          get out idx = f (map (\<lambda>j. get R (idx[a := idx ! a * n + j])) [0..<n]))"
proof -
  define K where "K = shape R ! a div n"
  define M where "M = prod_list (tl (swap a 0 (shape R)))"
  define R1 where "R1 = swapaxes a 0 R"
  define Q where "Q = reduce_axis1 f \<lparr>shape = [K, n, M], data = data R1\<rparr>"
  define R2 where "R2 = \<lparr>shape = (swap a 0 (shape R))[0 := K], data = data Q\<rparr>"
  define out where "out = swapaxes a 0 R2"
  from ax have a: "a < length (shape R)" by (rule norm_axis_less)
  then have z: "0 < length (shape R)" by (cases "shape R") auto
  have res: "aggregate_fields R (int n) axis meth = Inr out"
    unfolding out_def R2_def Q_def R1_def K_def M_def
    using assms by (rule aggregate_fields_result)
  have sp: "swap a 0 (shape R) = shape R ! a # tl (swap a 0 (shape R))"
    using a by (rule swap_0_split)
  from dv have Kn: "K * n = shape R ! a"
    unfolding K_def by simp
  have wf1: "wf_array R1" unfolding R1_def using wf a z by (rule wf_swapaxes)
  have sh1: "shape R1 = shape R ! a # tl (swap a 0 (shape R))"
    unfolding R1_def using sp by simp
  have sh2: "shape R2 = K # tl (swap a 0 (shape R))"
    unfolding R2_def by (subst sp) simp
  have lq: "length (data Q) = K * M"
    by (simp add: Q_def reduce_axis1_def)
  have wf2: "wf_array R2"
    using lq sh2 by (simp add: wf_array_def R2_def M_def)
  have a2: "a < length (shape R2)" "0 < length (shape R2)"
    using a z by (simp_all add: R2_def)
  have sho: "shape out = (shape R)[a := K]"
  proof -
    have "shape out = swap a 0 ((swap a 0 (shape R))[0 := K])"
      by (simp add: out_def R2_def)
    also have "\<dots> = (shape R)[a := K]"
      using a by (rule swap_update_0)
    finally show ?thesis .
  qed
  have wfo: "wf_array out"
    unfolding out_def using wf2 a2 by (rule wf_swapaxes)
  have el: "get out idx = f (map (\<lambda>j. get R (idx[a := idx ! a * n + j])) [0..<n])"
    if v: "valid_index (shape out) idx" for idx
  proof -
    have li: "length idx = length (shape R)"
      using v by (simp add: valid_index_def sho)
    have v': "valid_index (swap a 0 (shape R2)) idx"
      using v by (simp add: out_def)
    then have g1: "get out idx = get R2 (swap a 0 idx)"
      unfolding out_def using wf2 a2 by (intro get_swapaxes)
    from v' have "valid_index (shape R2) (swap a 0 idx)"
      using a2 by (intro valid_index_swap)
    then have "valid_index (K # tl (swap a 0 (shape R))) (swap a 0 idx)"
      by (simp only: sh2)
    then obtain k ridx where sw: "swap a 0 idx = k # ridx" and k: "k < K"
      and vr: "valid_index (tl (swap a 0 (shape R))) ridx"
      by (rule valid_index_ConsE)
    have ka: "k = idx ! a"
    proof -
      from a li z have "swap a 0 idx ! 0 = idx ! a" by (simp add: nth_swap)
      with sw show ?thesis by simp
    qed
    define m where "m = ravel (tl (swap a 0 (shape R))) ridx"
    have mM: "m < M" unfolding m_def M_def using vr by (rule ravel_less)
    have q: "k * M + m < K * M"
    proof -
      from mM have "k * M + m < (k + 1) * M" by simp
      also from k have "\<dots> \<le> K * M" by (intro mult_le_mono1) simp
      finally show ?thesis .
    qed
    have "get R2 (swap a 0 idx) = data Q ! (k * M + m)"
      by (simp add: get_def sh2 sw m_def M_def) (simp add: R2_def)
    also have "\<dots> = f (map (\<lambda>j. data R1 ! ((k * n + j) * M + m)) [0..<n])"
      using q mM by (simp add: Q_def reduce_axis1_def)
    also have "map (\<lambda>j. data R1 ! ((k * n + j) * M + m)) [0..<n]
             = map (\<lambda>j. get R (idx[a := idx ! a * n + j])) [0..<n]"
    proof (rule map_cong[OF refl])
      fix j assume "j \<in> set [0..<n]"
      then have j: "j < n" by simp
      have "k * n + j < (k + 1) * n" using j by simp
      also from k have "\<dots> \<le> K * n" by (intro mult_le_mono1) simp
      finally have lt: "k * n + j < shape R ! a" using Kn by simp
      then have vv: "valid_index (swap a 0 (shape R)) ((k * n + j) # ridx)"
        by (subst sp) (simp add: valid_index_Cons vr)
      have "data R1 ! ((k * n + j) * M + m) = get R1 ((k * n + j) # ridx)"
        by (simp add: get_def sh1 m_def M_def)
      also have "\<dots> = get R (swap a 0 ((k * n + j) # ridx))"
        unfolding R1_def using wf a z vv by (rule get_swapaxes)
      also have "(k * n + j) # ridx = (swap a 0 idx)[0 := k * n + j]"
        by (simp add: sw)
      also have "swap a 0 ((swap a 0 idx)[0 := k * n + j]) = idx[a := k * n + j]"
        using a li by (intro swap_update_0) simp
      finally show "data R1 ! ((k * n + j) * M + m) = get R (idx[a := idx ! a * n + j])"
        by (simp add: ka)
    qed
    finally show ?thesis using g1 by simp
  qed
  from res wfo sho el show ?thesis unfolding K_def by blast
qed


lemma reducer_Some_iff:
  "(\<exists>f. reducer m = Some f) \<longleftrightarrow> m \<in> {''sum'', ''mean'', ''nansum'', ''nanmean''}"
  by (auto simp: reducer_def)

text \<open>
  Claim C3: for every array, every axis \<open>a\<close>, every positive window \<open>w\<close> that divides the
  extent \<open>N\<close> of the axis and each of the four methods, \<^verbatim>\<open>aggregate_fields\<close> returns an
  array with extent \<open>N / w\<close> along \<open>a\<close>, the other extents unchanged, whose slice \<open>k\<close>
  along \<open>a\<close> is the reduction of the input slices \<open>k * w, ..., (k + 1) * w - 1\<close>.

  As stated this fails on an axis of extent 0, which every window divides: the call
  \<^verbatim>\<open>R.reshape((N, -1))\<close> with \<open>N = 0\<close> raises, since numpy cannot infer the other extent.
\<close>

theorem empty_axis_is_refused:
  "aggregate_fields \<lparr>shape = [0, 3], data = []\<rparr> 1 0 ''sum'' = Inl ReshapeError"
  by code_simp

text \<open>
  Claim C3, amended: as above for an axis of extent at least 1. The axis may be given from
  the end (negative); the method is recognised whatever the case of its letters. The
  element of the result at a multi-index \<open>idx\<close> is the reduction of the \<open>w\<close> elements of
  the input at \<open>idx\<close> with its component \<open>a\<close> replaced by \<open>idx ! a * w + j\<close>, for
  \<open>j = 0, ..., w - 1\<close> in this order.
\<close>

theorem window_aggregator_blocks:
  assumes "wf_array R" and "norm_axis (length (shape R)) axis = Inr a"
    and "0 < w" and "0 < shape R ! a" and "int (shape R ! a) mod w = 0"
    and "lower meth \<in> {''sum'', ''mean'', ''nansum'', ''nanmean''}"
  shows "\<exists>out f. aggregate_fields R w axis meth = Inr out \<and> reducer (lower meth) = Some f
    \<and> wf_array out
    \<and> shape out = (shape R)[a := shape R ! a div nat w]
    \<and> (\<forall>idx. valid_index (shape out) idx \<longrightarrow>
          get out idx = f (map (\<lambda>j. get R (idx[a := idx ! a * nat w + j])) [0..<nat w]))"
proof -
  from assms(6) obtain f where f: "reducer (lower meth) = Some f"
    using reducer_Some_iff by blast
  from assms(3) have n: "0 < nat w" and w: "w = int (nat w)" by simp_all
  from assms(5) have "int (shape R ! a) mod int (nat w) = 0" using w by simp
  then have dv: "nat w dvd shape R ! a"
    by (metis int_dvd_int_iff mod_eq_0_iff_dvd)
  from aggregate_fields_blocks[OF assms(1,2) n assms(4) dv f] w f
  show ?thesis by metis
qed

text \<open>
  A 2x3 array summed over its two rows: the result has shape (1, 3) and its element
  (0, 1) is the sum of the elements (0, 1) and (1, 1) of the input, 2 + 5.
\<close>

theorem window_aggregator_blocks_witness:
  "\<exists>out. aggregate_fields \<lparr>shape = [2, 3], data = map Fin [1, 2, 3, 4, 5, 6]\<rparr> 2 0 ''sum'' = Inr out
     \<and> shape out = [1, 3]
     \<and> get out [0, 1] = esum [get \<lparr>shape = [2, 3], data = map Fin [1, 2, 3, 4, 5, 6]\<rparr> [0, 1],
                               get \<lparr>shape = [2, 3], data = map Fin [1, 2, 3, 4, 5, 6]\<rparr> [1, 1]]
     \<and> get out [0, 1] = Fin 7"
proof -
  let ?A = "\<lparr>shape = [2, 3], data = map Fin [1, 2, 3, 4, 5, 6]\<rparr>"
  have 1: "wf_array ?A" by (simp add: wf_array_def)
  have 2: "norm_axis (length (shape ?A)) 0 = Inr 0" by (simp add: norm_axis_def)
  have 3: "(0::int) < 2" by simp
  have 4: "0 < shape ?A ! 0" by simp
  have 5: "int (shape ?A ! 0) mod 2 = 0" by simp
  have 6: "lower ''sum'' \<in> {''sum'', ''mean'', ''nansum'', ''nanmean''}" by (simp add: lower_def)
  from window_aggregator_blocks[OF 1 2 3 4 5 6]
  obtain out f where o: "aggregate_fields ?A 2 0 ''sum'' = Inr out"
    and f: "reducer (lower ''sum'') = Some f"
    and sh: "shape out = (shape ?A)[0 := shape ?A ! 0 div nat 2]"
    and el: "\<forall>idx. valid_index (shape out) idx \<longrightarrow>
          get out idx = f (map (\<lambda>j. get ?A (idx[0 := idx ! 0 * nat 2 + j])) [0..<nat 2])"
    by blast
  from f have fe: "f = esum" by (simp add: lower_def reducer_def)
  from sh have sh': "shape out = [1, 3]" by simp
  have "valid_index (shape out) [0, 1]"
    by (simp add: sh' valid_index_def less_Suc_eq numeral_2_eq_2)
  with el have "get out [0, 1] = f (map (\<lambda>j. get ?A ([0, 1][0 := [0, 1] ! 0 * nat 2 + j])) [0..<nat 2])"
    by blast
  also have "[0..<nat 2] = [0, 1]" by (simp add: numeral_2_eq_2)
  finally have g: "get out [0, 1] = esum [get ?A [0, 1], get ?A [1, 1]]"
    by (simp add: fe)
  have "esum [get ?A [0, 1], get ?A [1, 1]] = Fin 7" by code_simp
  with o sh' g show ?thesis by simp
qed

text \<open>
  Claim C5: \<^verbatim>\<open>aggregate_fields\<close> fails whenever the window does not divide the extent of
  the axis, with an error that names the window and the extent, and whenever the method is
  not one of the recognised reductions; with a dividing window and a recognised method it
  never raises.

  As stated the last part fails on an axis of extent 0 (see C3): the window 2 divides 0 and
  "mean" is recognised, yet the call raises. Also the method is compared after
  \<^verbatim>\<open>method.lower()\<close>, so the name "SUM", which is not one of the four names, is accepted.
\<close>

theorem empty_axis_raises_and_case_is_ignored:
  "aggregate_fields \<lparr>shape = [0], data = []\<rparr> 2 0 ''mean'' = Inl ReshapeError
   \<and> aggregate_fields \<lparr>shape = [2], data = [Fin 1, Fin 2]\<rparr> 2 0 ''SUM''
       = Inr \<lparr>shape = [1], data = [Fin 3]\<rparr>"
  by code_simp

text \<open>
  Claim C5, amended: with a window other than 0 that does not divide the extent of the
  axis the call fails with the error that names the window and the extent; with a method
  whose lower-case form is not one of the four names the call fails (with the error that
  names the method when the window divides the extent and the extent is at least 1); with
  a positive dividing window, an extent of at least 1 and a method whose lower-case form
  is one of the four names the call returns an array.
\<close>

theorem window_aggregator_errors:
  "(norm_axis (length (shape R)) axis = Inr a \<and> w \<noteq> 0 \<and> int (shape R ! a) mod w \<noteq> 0 \<longrightarrow>
      aggregate_fields R w axis meth = Inl (WindowNoSplit w (shape R ! a)))
   \<and> (lower meth \<notin> {''sum'', ''mean'', ''nansum'', ''nanmean''} \<longrightarrow>
      (\<exists>e. aggregate_fields R w axis meth = Inl e))
   \<and> (lower meth \<notin> {''sum'', ''mean'', ''nansum'', ''nanmean''} \<and> wf_array R
        \<and> norm_axis (length (shape R)) axis = Inr a \<and> w \<noteq> 0 \<and> 0 < shape R ! a
        \<and> int (shape R ! a) mod w = 0 \<longrightarrow>
      aggregate_fields R w axis meth = Inl (UnknownMethod meth))
   \<and> (lower meth \<in> {''sum'', ''mean'', ''nansum'', ''nanmean''} \<and> wf_array R
        \<and> norm_axis (length (shape R)) axis = Inr a \<and> 0 < w \<and> 0 < shape R ! a
        \<and> int (shape R ! a) mod w = 0 \<longrightarrow>
      (\<exists>out. aggregate_fields R w axis meth = Inr out))"
proof (intro conjI impI)
  assume "norm_axis (length (shape R)) axis = Inr a \<and> w \<noteq> 0 \<and> int (shape R ! a) mod w \<noteq> 0"
  then show "aggregate_fields R w axis meth = Inl (WindowNoSplit w (shape R ! a))"
    by (simp add: aggregate_fields_def)
next
  assume m: "lower meth \<notin> {''sum'', ''mean'', ''nansum'', ''nanmean''}"
  then have none: "reducer (lower meth) = None"
    using reducer_Some_iff[of "lower meth"] by (cases "reducer (lower meth)") auto
  show "\<exists>e. aggregate_fields R w axis meth = Inl e"
  proof (cases "aggregate_fields R w axis meth")
    case (Inl e)
    then show ?thesis by blast
  next
    case (Inr out)
    then have False using none
      by (auto simp: aggregate_fields_def ebind_eq_Inr Let_def split: if_splits)
    then show ?thesis ..
  qed
next
  assume h: "lower meth \<notin> {''sum'', ''mean'', ''nansum'', ''nanmean''} \<and> wf_array R
        \<and> norm_axis (length (shape R)) axis = Inr a \<and> w \<noteq> 0 \<and> 0 < shape R ! a
        \<and> int (shape R ! a) mod w = 0"
  then have none: "reducer (lower meth) = None"
    using reducer_Some_iff[of "lower meth"] by (cases "reducer (lower meth)") auto
  from h have a: "a < length (shape R)" by (auto dest: norm_axis_less)
  have sp: "swap a 0 (shape R) = shape R ! a # tl (swap a 0 (shape R))"
    using a by (rule swap_0_split)
  have "prod_list (swap a 0 (shape R)) = prod_list (shape R)"
    using a by (intro prod_list_swap) auto
  with sp have "prod_list (shape R) = shape R ! a * prod_list (tl (swap a 0 (shape R)))"
    by (metis prod_list.Cons)
  with h have "length (data R) mod shape R ! a = 0"
    by (simp add: wf_array_def)
  with h none show "aggregate_fields R w axis meth = Inl (UnknownMethod meth)"
    by (simp add: aggregate_fields_def reshape_rows_def)
next
  assume h: "lower meth \<in> {''sum'', ''mean'', ''nansum'', ''nanmean''} \<and> wf_array R
        \<and> norm_axis (length (shape R)) axis = Inr a \<and> 0 < w \<and> 0 < shape R ! a
        \<and> int (shape R ! a) mod w = 0"
  then obtain f where f: "reducer (lower meth) = Some f"
    using reducer_Some_iff by blast
  from h have n: "0 < nat w" and w: "w = int (nat w)" by simp_all
  from h have "int (shape R ! a) mod int (nat w) = 0" using w by simp
  then have dv: "nat w dvd shape R ! a"
    by (metis int_dvd_int_iff mod_eq_0_iff_dvd)
  from h have wf: "wf_array R" and ax: "norm_axis (length (shape R)) axis = Inr a"
    and N: "0 < shape R ! a" by simp_all
  from aggregate_fields_blocks[OF wf ax n N dv f] w
  show "\<exists>out. aggregate_fields R w axis meth = Inr out" by metis
qed

text \<open>
  On a 2x3 array along the axis of extent 3: the window 2 is refused, the window 3 with the
  method "median" is refused, the window 3 with "nanmean" is accepted.
\<close>

theorem window_aggregator_errors_witness:
  "aggregate_fields \<lparr>shape = [2, 3], data = map Fin [1, 2, 3, 4, 5, 6]\<rparr> 2 1 ''sum''
     = Inl (WindowNoSplit 2 3)
   \<and> aggregate_fields \<lparr>shape = [2, 3], data = map Fin [1, 2, 3, 4, 5, 6]\<rparr> 3 1 ''median''
     = Inl (UnknownMethod ''median'')
   \<and> (\<exists>out. aggregate_fields \<lparr>shape = [2, 3], data = map Fin [1, 2, 3, 4, 5, 6]\<rparr> 3 1 ''nanmean''
     = Inr out)"
proof -
  let ?A = "\<lparr>shape = [2, 3], data = map Fin [1, 2, 3, 4, 5, 6]\<rparr>"
  have ax: "norm_axis (length (shape ?A)) 1 = Inr 1" by (simp add: norm_axis_def)
  have wf: "wf_array ?A" by (simp add: wf_array_def)
  have 1: "aggregate_fields ?A 2 1 ''sum'' = Inl (WindowNoSplit 2 3)"
    using window_aggregator_errors[of ?A 1 1 2 "''sum''", THEN conjunct1] ax by simp
  have 2: "aggregate_fields ?A 3 1 ''median'' = Inl (UnknownMethod ''median'')"
    using window_aggregator_errors[of ?A 1 1 3 "''median''", THEN conjunct2, THEN conjunct2,
        THEN conjunct1] ax wf
    by (simp add: lower_def)
  have 3: "\<exists>out. aggregate_fields ?A 3 1 ''nanmean'' = Inr out"
    using window_aggregator_errors[of ?A 1 1 3 "''nanmean''", THEN conjunct2, THEN conjunct2,
        THEN conjunct2] ax wf
    by (simp add: lower_def)
  from 1 2 3 show ?thesis by blast
qed

subsection \<open>Slices of arrays of rank 4\<close>

lemma idx3_div:
  fixes m r c h w :: nat
  assumes "r < h" "c < w"
  shows "((m * h + r) * w + c) div (h * w) = m"
    and "((m * h + r) * w + c) div w mod h = r"
    and "((m * h + r) * w + c) mod w = c"
proof -
  from assms(2) have d: "((m * h + r) * w + c) div w = m * h + r" by simp
  from assms(2) show "((m * h + r) * w + c) mod w = c" by simp
  from d assms(1) show "((m * h + r) * w + c) div w mod h = r" by simp
  have "((m * h + r) * w + c) div (w * h) = ((m * h + r) * w + c) div w div h"
    by (rule div_mult2_eq)
  with d assms(1) show "((m * h + r) * w + c) div (h * w) = m"
    by (simp add: mult.commute)
qed

lemma idx3_decomp:
  fixes p h w :: nat
  shows "(p div (h * w) * h + p div w mod h) * w + p mod w = p"
proof -
  have "p div (w * h) = p div w div h"
    by (rule div_mult2_eq)
  then have "p div (h * w) = p div w div h"
    by (simp only: mult.commute)
  then have "p div (h * w) * h + p div w mod h = p div w" by simp
  then show ?thesis by simp
qed

lemma idx3_bound:
  fixes m r c k h w :: nat
  assumes "m < k" "r < h" "c < w"
  shows "(m * h + r) * w + c < k * h * w"
proof -
  from assms(3) have "(m * h + r) * w + c < (m * h + r + 1) * w" by simp
  also from assms(2) have "\<dots> \<le> ((m + 1) * h) * w" by (intro mult_le_mono1) simp
  also from assms(1) have "\<dots> \<le> (k * h) * w" by (intro mult_le_mono1) simp
  finally show ?thesis .
qed

lemma idx3_parts:
  fixes p k h w :: nat
  assumes "p < k * h * w"
  shows "p div (h * w) < k" and "p div w mod h < h" and "p mod w < w"
proof -
  from assms have w: "0 < w" and h: "0 < h" by (cases w; cases h; auto)+
  then show "p div w mod h < h" "p mod w < w" by simp_all
  from assms have "p < k * (h * w)" by (simp add: mult.assoc)
  then show "p div (h * w) < k"
    using w h by (simp add: less_mult_imp_div_less mult.commute)
qed

lemma slice_fits: "slice_start n sl + slice_len n sl \<le> n"
  by (auto simp: slice_start_def slice_len_def norm_idx_def split: option.splits)


lemma sub23_shape:
  "shape R = [n, t, Y, X] \<Longrightarrow> shape (sub23 ys xs R) = [n, t, slice_len Y ys, slice_len X xs]"
  by (simp add: sub23_def Let_def)

lemma sub23_length:
  "shape R = [n, t, Y, X] \<Longrightarrow>
   length (data (sub23 ys xs R)) = n * t * slice_len Y ys * slice_len X xs"
  by (simp add: sub23_def Let_def)

lemma sub23_nth:
  assumes "shape R = [n, t, Y, X]" and "p < n * t * slice_len Y ys * slice_len X xs"
  shows "data (sub23 ys xs R) ! p =
         data R ! ((p div (slice_len Y ys * slice_len X xs) * Y + slice_start Y ys
                     + p div slice_len X xs mod slice_len Y ys) * X
                   + slice_start X xs + p mod slice_len X xs)"
  using assms by (simp add: sub23_def Let_def)

lemma sub23_leading:
  assumes "shape A = [n, t, Y, X]" "shape B = [n', t', Y, X]" "n * t = n' * t'" "data A = data B"
  shows "data (sub23 ys xs A) = data (sub23 ys xs B)"
  using assms by (simp add: sub23_def Let_def)

lemma assign23_Inr:
  assumes "shape R' = [n, t, Y, X]" and "shape S = [n, t, slice_len Y ys, slice_len X xs]"
  shows "assign23 ys xs R' S = Inr (R'\<lparr>data :=
           map (\<lambda>q. if slice_start Y ys \<le> q div X mod Y
                        \<and> q div X mod Y < slice_start Y ys + slice_len Y ys
                        \<and> slice_start X xs \<le> q mod X
                        \<and> q mod X < slice_start X xs + slice_len X xs
                     then data S ! ((q div (Y * X) * slice_len Y ys + (q div X mod Y - slice_start Y ys))
                                      * slice_len X xs + (q mod X - slice_start X xs))
                     else data R' ! q)
               [0..<length (data R')]\<rparr>)"
  using assms by (simp add: assign23_def Let_def)

lemma sub23_assign23:
  assumes R': "shape R' = [n, t, Y, X]" "length (data R') = n * t * Y * X"
    and S: "shape S = [n, t, slice_len Y ys, slice_len X xs]"
           "length (data S) = n * t * slice_len Y ys * slice_len X xs"
    and a: "assign23 ys xs R' S = Inr R2"
  shows "data (sub23 ys xs R2) = data S"
proof (rule nth_equalityI)
  define h w sy sx where "h = slice_len Y ys" and "w = slice_len X xs"
    and "sy = slice_start Y ys" and "sx = slice_start X xs"
  note defs = h_def w_def sy_def sx_def
  from a have sh2: "shape R2 = [n, t, Y, X]" using assign23_shape R'(1) by metis
  then show len: "length (data (sub23 ys xs R2)) = length (data S)"
    using S(2) by (simp add: sub23_length)
  fix p assume "p < length (data (sub23 ys xs R2))"
  with len S(2) have p: "p < n * t * h * w" by (simp add: defs)
  define m r c where "m = p div (h * w)" and "r = p div w mod h" and "c = p mod w"
  from idx3_parts[OF p] have m: "m < n * t" and r: "r < h" and c: "c < w"
    by (simp_all add: m_def r_def c_def)
  have fy: "sy + r < Y" using r slice_fits[of Y ys] by (simp add: defs)
  have fx: "sx + c < X" using c slice_fits[of X xs] by (simp add: defs)
  define q where "q = (m * Y + (sy + r)) * X + (sx + c)"
  have q: "q < length (data R')"
    unfolding q_def R'(2) using m fy fx by (rule idx3_bound)
  have qd: "q div (Y * X) = m" "q div X mod Y = sy + r" "q mod X = sx + c"
    unfolding q_def using fy fx by (rule idx3_div)+
  have "data (sub23 ys xs R2) ! p = data R2 ! q"
    using sub23_nth[OF sh2, of p ys xs] p
    by (simp add: defs q_def m_def r_def c_def add.assoc)
  also have "\<dots> = data S ! ((m * h + r) * w + c)"
    using a q r c unfolding assign23_Inr[OF R'(1) S(1)]
    by (auto simp: qd defs[symmetric])
  also have "(m * h + r) * w + c = p"
    unfolding m_def r_def c_def by (rule idx3_decomp)
  finally show "data (sub23 ys xs R2) ! p = data S ! p" .
qed


lemma assign23_sub23:
  assumes R: "shape R = [n, t, Y, X]"
    and Z: "shape Z = [n', t', Y, X]" "length (data Z) = n * t * Y * X"
    and S: "shape S = [n', t', slice_len Y ys, slice_len X xs]"
           "data S = data (sub23 ys xs R)"
  shows "\<exists>R2. assign23 ys xs Z S = Inr R2 \<and> shape R2 = shape Z
    \<and> length (data R2) = n * t * Y * X
    \<and> (\<forall>q < n * t * Y * X. data R2 ! q =
          (if slice_start Y ys \<le> q div X mod Y
              \<and> q div X mod Y < slice_start Y ys + slice_len Y ys
              \<and> slice_start X xs \<le> q mod X
              \<and> q mod X < slice_start X xs + slice_len X xs
           then data R ! q else data Z ! q))"
proof -
  define h w sy sx where "h = slice_len Y ys" and "w = slice_len X xs"
    and "sy = slice_start Y ys" and "sx = slice_start X xs"
  note defs = h_def w_def sy_def sx_def
  define R2 where "R2 = Z\<lparr>data :=
           map (\<lambda>q. if sy \<le> q div X mod Y \<and> q div X mod Y < sy + h
                        \<and> sx \<le> q mod X \<and> q mod X < sx + w
                     then data S ! ((q div (Y * X) * h + (q div X mod Y - sy)) * w + (q mod X - sx))
                     else data Z ! q)
               [0..<length (data Z)]\<rparr>"
  have a: "assign23 ys xs Z S = Inr R2"
    unfolding R2_def defs by (rule assign23_Inr[OF Z(1) S(1)])
  have el: "data R2 ! q = (if sy \<le> q div X mod Y \<and> q div X mod Y < sy + h
                        \<and> sx \<le> q mod X \<and> q mod X < sx + w
                     then data R ! q else data Z ! q)"
    if q: "q < n * t * Y * X" for q
  proof (cases "sy \<le> q div X mod Y \<and> q div X mod Y < sy + h
                        \<and> sx \<le> q mod X \<and> q mod X < sx + w")
    case False
    with q Z(2) show ?thesis by (auto simp: R2_def)
  next
    case True
    define m r c where "m = q div (Y * X)" and "r = q div X mod Y - sy" and "c = q mod X - sx"
    from True have r: "r < h" and c: "c < w"
      and rr: "sy + r = q div X mod Y" and cc: "sx + c = q mod X"
      by (auto simp: r_def c_def)
    from idx3_parts(1)[OF q] have m: "m < n * t" by (simp add: m_def)
    define p where "p = (m * h + r) * w + c"
    have p: "p < n * t * h * w" unfolding p_def using m r c by (rule idx3_bound)
    have pd: "p div (h * w) = m" "p div w mod h = r" "p mod w = c"
      unfolding p_def using r c by (rule idx3_div)+
    from True q Z(2) have "data R2 ! q = data S ! p"
      by (simp add: R2_def p_def m_def r_def c_def)
    also have "\<dots> = data R ! ((m * Y + sy + r) * X + sx + c)"
      using sub23_nth[OF R, of p ys xs] p
      by (simp add: S(2) defs[symmetric] pd)
    also have "(m * Y + sy + r) * X + sx + c = (m * Y + q div X mod Y) * X + q mod X"
      using rr cc by (simp add: add.assoc)
    also have "\<dots> = q" unfolding m_def by (rule idx3_decomp)
    finally show ?thesis using True by simp
  qed
  have "shape R2 = shape Z" "length (data R2) = n * t * Y * X"
    using Z(2) by (simp_all add: R2_def)
  with a el show ?thesis unfolding defs by blast
qed

lemma promote_shape_cases:
  assumes "length (shape R) = 2 \<or> length (shape R) = 3 \<or> length (shape R) = 4"
  obtains n t y x where "promote R = Inr (R\<lparr>shape := [n, t, y, x]\<rparr>)"
    "filter (\<lambda>d. d \<noteq> 1) [n, t, y, x] = filter (\<lambda>d. d \<noteq> 1) (shape R)"
    "prod_list (shape R) = n * t * y * x"
    "y = shape R ! (length (shape R) - 2)" "x = shape R ! (length (shape R) - 1)"
proof -
  from assms consider (2) y x where "shape R = [y, x]" | (3) t y x where "shape R = [t, y, x]"
    | (4) n t y x where "shape R = [n, t, y, x]"
    by (cases "shape R"; cases "tl (shape R)"; cases "tl (tl (shape R))";
        cases "tl (tl (tl (shape R)))") auto
  then show ?thesis
  proof cases
    case 2
    then show ?thesis by (intro that[of 1 1 y x]) (simp_all add: promote_def)
  next
    case 3
    then show ?thesis by (intro that[of 1 t y x]) (simp_all add: promote_def)
  next
    case 4
    then have "R\<lparr>shape := [n, t, y, x]\<rparr> = R" by simp
    with 4 show ?thesis by (intro that[of n t y x]) (simp_all add: promote_def)
  qed
qed

lemma promote_squeeze:
  assumes "shape R = [n, t, a, b]" "a \<noteq> 1" "b \<noteq> 1"
  obtains n' t' where "promote (squeeze R) = Inr (R\<lparr>shape := [n', t', a, b]\<rparr>)"
    "n' * t' = n * t"
    "filter (\<lambda>d. d \<noteq> 1) [n', t'] = filter (\<lambda>d. d \<noteq> 1) [n, t]"
proof (cases "n = 1"; cases "t = 1")
  assume "n = 1" "t = 1"
  with assms show ?thesis by (intro that[of 1 1]) (simp_all add: promote_def squeeze_def)
next
  assume "n = 1" "t \<noteq> 1"
  with assms show ?thesis by (intro that[of 1 t]) (simp_all add: promote_def squeeze_def)
next
  assume "n \<noteq> 1" "t = 1"
  with assms show ?thesis by (intro that[of 1 n]) (simp_all add: promote_def squeeze_def)
next
  assume "n \<noteq> 1" "t \<noteq> 1"
  with assms show ?thesis by (intro that[of n t]) (simp_all add: promote_def squeeze_def)
qed


lemma is_num_md_num: "is_num md k \<Longrightarrow> \<exists>v. md_num md k = Inr v"
  by (auto simp: is_num_def md_num_def split: option.splits mval.splits)

lemma is_num_upd: "is_num (md(k' := u)) k \<longleftrightarrow> (if k = k' then is_num (\<lambda>_. u) k else is_num md k)"
  by (simp add: is_num_def)

lemma md_add_is_num:
  assumes "is_num md k" "is_num md p"
  shows "\<exists>v. md_add k i p md = Inr (md(k := Some (MNum v)))"
  using is_num_md_num[OF assms(1)] is_num_md_num[OF assms(2)]
  by (auto simp: md_add_def)

lemma md_sub_is_num:
  assumes "is_num md k" "is_num md p"
  shows "\<exists>v. md_sub k i p md = Inr (md(k := Some (MNum v)))"
  using is_num_md_num[OF assms(1)] is_num_md_num[OF assms(2)]
  by (auto simp: md_sub_def)

lemma grow_is_num:
  assumes "is_num md lo" "is_num md hi" "is_num md p" "p \<noteq> lo"
  shows "\<exists>u v. grow lo hi p i md = Inr (md(lo := Some (MNum u), hi := Some (MNum v)))"
proof -
  from md_sub_is_num[OF assms(1,3)] obtain u where
    1: "md_sub lo i p md = Inr (md(lo := Some (MNum u)))" by blast
  from assms have "is_num (md(lo := Some (MNum u))) hi" "is_num (md(lo := Some (MNum u))) p"
    by (simp_all add: is_num_def)
  from md_add_is_num[OF this] obtain v where
    "md_add hi i p (md(lo := Some (MNum u))) = Inr (md(lo := Some (MNum u), hi := Some (MNum v)))"
    by blast
  with 1 show ?thesis by (auto simp: grow_def)
qed

lemma shrink_is_num:
  assumes "is_num md lo" "is_num md hi" "is_num md p" "p \<noteq> lo"
  shows "\<exists>u v. shrink lo hi p i md = Inr (md(lo := Some (MNum u), hi := Some (MNum v)))"
proof -
  from md_add_is_num[OF assms(1,3)] obtain u where
    1: "md_add lo i p md = Inr (md(lo := Some (MNum u)))" by blast
  from assms have "is_num (md(lo := Some (MNum u))) hi" "is_num (md(lo := Some (MNum u))) p"
    by (simp_all add: is_num_def)
  from md_sub_is_num[OF this] obtain v where
    "md_sub hi i p (md(lo := Some (MNum u))) = Inr (md(lo := Some (MNum u), hi := Some (MNum v)))"
    by blast
  with 1 show ?thesis by (auto simp: shrink_def)
qed

lemma georeferenced_grow_x:
  assumes "georeferenced md"
  obtains md' where "grow ''x1'' ''x2'' ''xpixelsize'' i md = Inr md'" "georeferenced md'"
    "md' ''orig_domain'' = md ''orig_domain''" "md' ''square_method'' = md ''square_method''"
proof -
  from assms grow_is_num[of md "''x1''" "''x2''" "''xpixelsize''" i] obtain u v where
    "grow ''x1'' ''x2'' ''xpixelsize'' i md = Inr (md(''x1'' := Some (MNum u), ''x2'' := Some (MNum v)))"
    by (auto simp: georeferenced_def)
  moreover from assms have "georeferenced (md(''x1'' := Some (MNum u), ''x2'' := Some (MNum v)))"
    by (simp add: georeferenced_def is_num_def)
  ultimately show ?thesis by (rule that) simp_all
qed

lemma georeferenced_grow_y:
  assumes "georeferenced md"
  obtains md' where "grow ''y1'' ''y2'' ''ypixelsize'' i md = Inr md'" "georeferenced md'"
    "md' ''orig_domain'' = md ''orig_domain''" "md' ''square_method'' = md ''square_method''"
proof -
  from assms grow_is_num[of md "''y1''" "''y2''" "''ypixelsize''" i] obtain u v where
    "grow ''y1'' ''y2'' ''ypixelsize'' i md = Inr (md(''y1'' := Some (MNum u), ''y2'' := Some (MNum v)))"
    by (auto simp: georeferenced_def)
  moreover from assms have "georeferenced (md(''y1'' := Some (MNum u), ''y2'' := Some (MNum v)))"
    by (simp add: georeferenced_def is_num_def)
  ultimately show ?thesis by (rule that) simp_all
qed

lemma georeferenced_shrink_x:
  assumes "georeferenced md"
  obtains md' where "shrink ''x1'' ''x2'' ''xpixelsize'' i md = Inr md'" "georeferenced md'"
    "md' ''orig_domain'' = md ''orig_domain''" "md' ''square_method'' = md ''square_method''"
proof -
  from assms shrink_is_num[of md "''x1''" "''x2''" "''xpixelsize''" i] obtain u v where
    "shrink ''x1'' ''x2'' ''xpixelsize'' i md = Inr (md(''x1'' := Some (MNum u), ''x2'' := Some (MNum v)))"
    by (auto simp: georeferenced_def)
  moreover from assms have "georeferenced (md(''x1'' := Some (MNum u), ''x2'' := Some (MNum v)))"
    by (simp add: georeferenced_def is_num_def)
  ultimately show ?thesis by (rule that) simp_all
qed

lemma georeferenced_shrink_y:
  assumes "georeferenced md"
  obtains md' where "shrink ''y1'' ''y2'' ''ypixelsize'' i md = Inr md'" "georeferenced md'"
    "md' ''orig_domain'' = md ''orig_domain''" "md' ''square_method'' = md ''square_method''"
proof -
  from assms shrink_is_num[of md "''y1''" "''y2''" "''ypixelsize''" i] obtain u v where
    "shrink ''y1'' ''y2'' ''ypixelsize'' i md = Inr (md(''y1'' := Some (MNum u), ''y2'' := Some (MNum v)))"
    by (auto simp: georeferenced_def)
  moreover from assms have "georeferenced (md(''y1'' := Some (MNum u), ''y2'' := Some (MNum v)))"
    by (simp add: georeferenced_def is_num_def)
  ultimately show ?thesis by (rule that) simp_all
qed

lemma georeferenced_record:
  "georeferenced md \<Longrightarrow> georeferenced (md(''orig_domain'' := u, ''square_method'' := v))"
  "georeferenced md \<Longrightarrow> georeferenced (md(''square_method'' := v, ''orig_domain'' := u))"
  by (simp_all add: georeferenced_def is_num_def)

lemma slice_Some [simp]:
  "a + w \<le> n \<Longrightarrow> slice_start n (Some (int a, int a + int w)) = a"
  "a + w \<le> n \<Longrightarrow> slice_len n (Some (int a, int a + int w)) = w"
  by (auto simp: slice_start_def slice_len_def norm_idx_def)

lemma slice_None [simp]: "slice_start n None = 0" "slice_len n None = n"
  by (simp_all add: slice_start_def slice_len_def)

lemma int_half_diff: "b \<le> a \<Longrightarrow> int_half (int a - int b) = int ((a - b) div 2)"
  by (simp add: int_half_def zdiv_int of_nat_diff)


lemma amin_nonempty: "xs \<noteq> [] \<Longrightarrow> \<exists>m. amin xs = Inr m"
  by (cases xs) (simp_all add: amin_def)

lemma pad_slice_len:
  "y \<noteq> x \<Longrightarrow> slice_len (max y x) (pad_ys y x) = y"
  "y \<noteq> x \<Longrightarrow> slice_len (max y x) (pad_xs y x) = x"
  by (auto simp: pad_ys_def pad_xs_def max_def)

lemma square_pad_core:
  assumes sh: "shape P = [n, t, y, x]" and len: "length (data P) = n * t * y * x"
    and ne: "data P \<noteq> []" and yx: "y \<noteq> x" and g: "georeferenced md"
  obtains R2 md1 where "square_pad P md = Inr (R2, md1)"
    "shape R2 = [n, t, max y x, max y x]" "georeferenced md1"
    "data (sub23 (pad_ys y x) (pad_xs y x) R2) = data P"
proof -
  from amin_nonempty[OF ne] obtain mn where mn: "amin (data P) = Inr mn" by blast
  define D where "D = max y x"
  define Z where "Z = full [n, t, D, D] mn"
  have Zs: "shape Z = [n, t, D, D]" and Zl: "length (data Z) = n * t * D * D"
    by (simp_all add: Z_def)
  have Ps: "shape P = [n, t, slice_len D (pad_ys y x), slice_len D (pad_xs y x)]"
    using sh yx by (simp add: pad_slice_len D_def)
  have Pl: "length (data P) = n * t * slice_len D (pad_ys y x) * slice_len D (pad_xs y x)"
    using len yx by (simp add: pad_slice_len D_def)
  from assign23_Inr[OF Zs Ps] obtain R2 where
    a: "assign23 (pad_ys y x) (pad_xs y x) Z P = Inr R2" by blast
  then have s2: "shape R2 = [n, t, D, D]" using assign23_shape Zs by metis
  from sub23_assign23[OF Zs Zl Ps Pl a]
  have d2: "data (sub23 (pad_ys y x) (pad_xs y x) R2) = data P" .
  show ?thesis
  proof (cases "x < y")
    case True
    from georeferenced_grow_x[OF g] obtain md1 where
      gr: "grow ''x1'' ''x2'' ''xpixelsize'' (int ((y - x) div 2)) md = Inr md1"
      and g1: "georeferenced md1" by metis
    from True have "square_pad P md = Inr (R2, md1)"
      using mn a gr sh
      by (simp add: square_pad_def Let_def D_def Z_def pad_ys_def pad_xs_def int_half_diff max_def)
    with s2 g1 d2 show ?thesis by (intro that) (simp_all add: D_def)
  next
    case False
    with yx have lt: "y < x" by simp
    from georeferenced_grow_y[OF g] obtain md1 where
      gr: "grow ''y1'' ''y2'' ''ypixelsize'' (int ((x - y) div 2)) md = Inr md1"
      and g1: "georeferenced md1" by metis
    from lt have "square_pad P md = Inr (R2, md1)"
      using mn a gr sh
      by (simp add: square_pad_def Let_def D_def Z_def pad_ys_def pad_xs_def int_half_diff max_def)
    with s2 g1 d2 show ?thesis by (intro that) (simp_all add: D_def)
  qed
qed

lemma unsquare_pad_core:
  assumes sh: "shape P' = [n', t', max y x, max y x]" and yx: "y \<noteq> x" and g: "georeferenced md0"
  obtains md2 where
    "unsquare_pad P' y x md0 = Inr (sub23 (pad_ys y x) (pad_xs y x) P', md2)"
proof (cases "x < y")
  case True
  from georeferenced_shrink_x[OF g] obtain md2 where
    "shrink ''x1'' ''x2'' ''xpixelsize'' (int ((y - x) div 2)) md0 = Inr md2" by metis
  with True sh have "unsquare_pad P' y x md0 = Inr (sub23 (pad_ys y x) (pad_xs y x) P', md2)"
    by (simp add: unsquare_pad_def Let_def pad_ys_def pad_xs_def int_half_diff max_def)
  then show ?thesis by (rule that)
next
  case False
  with yx have lt: "y < x" by simp
  from georeferenced_shrink_y[OF g] obtain md2 where
    "shrink ''y1'' ''y2'' ''ypixelsize'' (int ((x - y) div 2)) md0 = Inr md2" by metis
  with lt sh have "unsquare_pad P' y x md0 = Inr (sub23 (pad_ys y x) (pad_xs y x) P', md2)"
    by (simp add: unsquare_pad_def Let_def pad_ys_def pad_xs_def int_half_diff max_def)
  then show ?thesis by (rule that)
qed


lemma spatial_shape_kept:
  assumes "length s = 2 \<or> length s = 3 \<or> length s = 4"
    and "2 \<le> s ! (length s - 2)" "2 \<le> s ! (length s - 1)"
  shows "drop (length (filter (\<lambda>d. d \<noteq> 1) s) - 2) (filter (\<lambda>d. d \<noteq> Suc 0) s)
         = [s ! (length s - 2), s ! (length s - 1)]"
proof -
  from assms(1) consider (2) y x where "s = [y, x]" | (3) t y x where "s = [t, y, x]"
    | (4) n t y x where "s = [n, t, y, x]"
    by (cases s; cases "tl s"; cases "tl (tl s)"; cases "tl (tl (tl s))") auto
  then show ?thesis using assms(2,3) by cases auto
qed

subsection \<open>Squaring a domain and back\<close>

text \<open>
  Claim C1: for every non-square field of rank 2, 3 or 4 with pixel-size metadata, padding
  to a square and then inverting, with the metadata the first call produced, returns a
  field whose spatial shape is the original one and whose values are the original ones.

  As stated this fails when a spatial extent is 1: both calls squeeze their result, so a
  field of shape (1, 3) comes back with shape (3): it has lost its y axis. (It also fails
  on a field without elements, whose minimum \<^verbatim>\<open>R.min()\<close> does not exist.)
\<close>

theorem pad_then_inverse_drops_unit_spatial_axis:
  "(case square_domain \<lparr>shape = [1, 3], data = [Fin 1, Fin 2, Fin 3]\<rparr>
          [''x1'' \<mapsto> MNum 0, ''x2'' \<mapsto> MNum 3, ''y1'' \<mapsto> MNum 0, ''y2'' \<mapsto> MNum 1,
           ''xpixelsize'' \<mapsto> MNum 1, ''ypixelsize'' \<mapsto> MNum 1] ''pad'' False of
      Inr (Pair S md1) \<Rightarrow>
        map_sum id (\<lambda>r. shape (result_array r)) (square_domain S md1 ''pad'' True)
    | Inr (Bare S) \<Rightarrow> Inl TypeError
    | Inl e \<Rightarrow> Inl e) = Inr [3]"
  by code_simp

text \<open>
  Claim C1, amended: for every non-empty, non-square field of rank 2, 3 or 4 whose metadata
  holds numeric bounds and pixel sizes, \<^verbatim>\<open>square_domain\<close> with "pad" succeeds and records
  the original domain and the method, and the inverse applied to its result and metadata
  returns the original field with its axes of extent 1 removed: the same values in the same
  order. When both spatial extents are at least 2, the two last extents of the result are
  the original spatial shape. (The method passed to the inverse is immaterial: the recorded
  one is used.)
\<close>

theorem pad_then_inverse_restores_field:
  assumes wf: "wf_array R"
    and rank: "length (shape R) = 2 \<or> length (shape R) = 3 \<or> length (shape R) = 4"
    and y: "y = shape R ! (length (shape R) - 2)" and x: "x = shape R ! (length (shape R) - 1)"
    and yx: "y \<noteq> x" and ne: "data R \<noteq> []" and g: "georeferenced md"
  shows "\<exists>S md1 md2. square_domain R md ''pad'' False = Inr (Pair S md1)
      \<and> md1 ''orig_domain'' = Some (MDom y x) \<and> md1 ''square_method'' = Some (MStr ''pad'')
      \<and> square_domain S md1 meth True = Inr (Pair (squeeze R) md2)
      \<and> data (squeeze R) = data R
      \<and> (2 \<le> y \<and> 2 \<le> x \<longrightarrow>
           drop (length (shape (squeeze R)) - 2) (shape (squeeze R)) = [y, x])"
proof -
  from rank obtain n t y' x' where pr: "promote R = Inr (R\<lparr>shape := [n, t, y', x']\<rparr>)"
    and fl: "filter (\<lambda>d. d \<noteq> 1) [n, t, y', x'] = filter (\<lambda>d. d \<noteq> 1) (shape R)"
    and pl: "prod_list (shape R) = n * t * y' * x'"
    and "y' = shape R ! (length (shape R) - 2)" "x' = shape R ! (length (shape R) - 1)"
    by (rule promote_shape_cases)
  with y x have [simp]: "y' = y" "x' = x" by simp_all
  define P where "P = R\<lparr>shape := [n, t, y, x]\<rparr>"
  have Ps: "shape P = [n, t, y, x]" and Pd: "data P = data R" by (simp_all add: P_def)
  have Pl: "length (data P) = n * t * y * x"
    using wf pl by (simp add: wf_array_def Pd)
  from ne have Pne: "data P \<noteq> []" by (simp add: Pd)
  from Pne Pl have pos: "0 < y" "0 < x" by (cases y; cases x; auto)+
  define D where "D = max y x"
  from pos yx have D1: "D \<noteq> 1" unfolding D_def by (auto simp: max_def)
  from square_pad_core[OF Ps Pl Pne yx g] obtain R2 md0 where
    sp: "square_pad P md = Inr (R2, md0)" and s2: "shape R2 = [n, t, D, D]"
    and g0: "georeferenced md0"
    and d2: "data (sub23 (pad_ys y x) (pad_xs y x) R2) = data P"
    unfolding D_def by metis
  define md1 where "md1 = md0(''orig_domain'' := Some (MDom y x), ''square_method'' := Some (MStr ''pad''))"
  have fwd: "square_domain R md ''pad'' False = Inr (Pair (squeeze R2) md1)"
    using pr yx sp by (simp add: square_domain_def P_def[symmetric] Ps md1_def)
  from promote_squeeze[OF s2 D1 D1] obtain n' t' where
    pq: "promote (squeeze R2) = Inr (R2\<lparr>shape := [n', t', D, D]\<rparr>)"
    and nt: "n' * t' = n * t"
    and fnt: "filter (\<lambda>d. d \<noteq> 1) [n', t'] = filter (\<lambda>d. d \<noteq> 1) [n, t]"
    by metis
  define P' where "P' = R2\<lparr>shape := [n', t', D, D]\<rparr>"
  have P's: "shape P' = [n', t', max y x, max y x]" and P'd: "data P' = data R2"
    by (simp_all add: P'_def D_def)
  define mdi where "mdi = md1(''square_method'' := None, ''orig_domain'' := None)"
  have gi: "georeferenced mdi"
    unfolding mdi_def md1_def using g0 by (simp add: georeferenced_def is_num_def)
  from unsquare_pad_core[OF P's yx gi] obtain md2 where
    up: "unsquare_pad P' y x mdi = Inr (sub23 (pad_ys y x) (pad_xs y x) P', md2)" by metis
  define Q where "Q = sub23 (pad_ys y x) (pad_xs y x) P'"
  have Qs: "shape Q = [n', t', y, x]"
    unfolding Q_def using sub23_shape[OF P's] yx by (simp add: pad_slice_len)
  have "data Q = data (sub23 (pad_ys y x) (pad_xs y x) R2)"
    unfolding Q_def using P's s2 nt P'd
    by (intro sub23_leading[of _ n' t' D D _ n t]) (simp_all add: D_def)
  with d2 have Qd: "data Q = data R" by (simp add: Pd)
  have "shape (squeeze Q) = filter (\<lambda>d. d \<noteq> 1) [n', t'] @ filter (\<lambda>d. d \<noteq> 1) [y, x]"
    by (simp add: Qs)
  also have "\<dots> = filter (\<lambda>d. d \<noteq> 1) [n, t, y, x]"
    by (simp only: fnt filter_append[symmetric]) simp
  also have "\<dots> = shape (squeeze R)" using fl by simp
  finally have "squeeze Q = squeeze R"
    using Qd by (simp add: squeeze_def)
  moreover have "\<not> (shape P' ! 2 = y \<and> shape P' ! 3 = x)" using yx by (auto simp: P'_def)
  moreover have "md_get md1 ''square_method'' = Inr (MStr ''pad'')"
    "md_get (md1(''square_method'' := None)) ''orig_domain'' = Inr (MDom y x)"
    by (simp_all add: md_get_def md1_def)
  moreover have "promote (squeeze R2) = Inr P'" using pq by (simp add: P'_def)
  ultimately have inv: "square_domain (squeeze R2) md1 meth True = Inr (Pair (squeeze R) md2)"
    using up
    by (simp add: square_domain_def orig_domain_of_def Let_def mdi_def[symmetric]
          Q_def[symmetric])
  have sp': "2 \<le> y \<and> 2 \<le> x \<longrightarrow>
           drop (length (shape (squeeze R)) - 2) (shape (squeeze R)) = [y, x]"
    using spatial_shape_kept[OF rank] y x by simp
  from fwd inv sp' show ?thesis by (auto simp: md1_def)
qed


text \<open>A 2x3 field is padded to 3x3 and restored.\<close>

theorem pad_then_inverse_restores_field_witness:
  "\<exists>S md1 md2. square_domain \<lparr>shape = [2, 3], data = map Fin [1, 2, 3, 4, 5, 6]\<rparr>
        [''x1'' \<mapsto> MNum 0, ''x2'' \<mapsto> MNum 3, ''y1'' \<mapsto> MNum 0, ''y2'' \<mapsto> MNum 2,
         ''xpixelsize'' \<mapsto> MNum 1, ''ypixelsize'' \<mapsto> MNum 1] ''pad'' False = Inr (Pair S md1)
     \<and> square_domain S md1 ''pad'' True
         = Inr (Pair \<lparr>shape = [2, 3], data = map Fin [1, 2, 3, 4, 5, 6]\<rparr> md2)"
proof -
  let ?A = "\<lparr>shape = [2, 3], data = map Fin [1, 2, 3, 4, 5, 6]\<rparr>"
  let ?md = "[''x1'' \<mapsto> MNum 0, ''x2'' \<mapsto> MNum 3, ''y1'' \<mapsto> MNum 0, ''y2'' \<mapsto> MNum 2,
         ''xpixelsize'' \<mapsto> MNum 1, ''ypixelsize'' \<mapsto> MNum (1::rat)]"
  have 1: "wf_array ?A" by (simp add: wf_array_def)
  have 2: "length (shape ?A) = 2 \<or> length (shape ?A) = 3 \<or> length (shape ?A) = 4" by simp
  have 3: "(2::nat) = shape ?A ! (length (shape ?A) - 2)" by simp
  have 4: "(3::nat) = shape ?A ! (length (shape ?A) - 1)" by simp
  have 5: "(2::nat) \<noteq> 3" by simp
  have 6: "data ?A \<noteq> []" by simp
  have 7: "georeferenced ?md" by (simp add: georeferenced_def is_num_def)
  have sq: "squeeze ?A = ?A" by (simp add: squeeze_def)
  from pad_then_inverse_restores_field[OF 1 2 3 4 5 6 7, of "''pad''"]
  show ?thesis unfolding sq by blast
qed

lemma crop_slice_len:
  "y \<noteq> x \<Longrightarrow> slice_len y (crop_ys y x) = min y x"
  "y \<noteq> x \<Longrightarrow> slice_len x (crop_xs y x) = min y x"
  by (auto simp: crop_ys_def crop_xs_def min_def)

lemma square_crop_core:
  assumes sh: "shape P = [n, t, y, x]" and yx: "y \<noteq> x" and g: "georeferenced md"
  obtains md1 where "square_crop P md = Inr (sub23 (crop_ys y x) (crop_xs y x) P, md1)"
    "georeferenced md1"
proof (cases "y < x")
  case True
  from georeferenced_shrink_x[OF g] obtain md1 where
    "shrink ''x1'' ''x2'' ''xpixelsize'' (int ((x - y) div 2)) md = Inr md1"
    and g1: "georeferenced md1" by metis
  with True sh have "square_crop P md = Inr (sub23 (crop_ys y x) (crop_xs y x) P, md1)"
    by (simp add: square_crop_def Let_def crop_ys_def crop_xs_def int_half_diff min_def)
  then show ?thesis using g1 by (rule that)
next
  case False
  with yx have lt: "x < y" by simp
  from georeferenced_shrink_y[OF g] obtain md1 where
    "shrink ''y1'' ''y2'' ''ypixelsize'' (int ((y - x) div 2)) md = Inr md1"
    and g1: "georeferenced md1" by metis
  with lt sh have "square_crop P md = Inr (sub23 (crop_ys y x) (crop_xs y x) P, md1)"
    by (simp add: square_crop_def Let_def crop_ys_def crop_xs_def int_half_diff min_def)
  then show ?thesis using g1 by (rule that)
qed

lemma unsquare_crop_core:
  assumes sh: "shape P' = [n', t', min y x, min y x]" and yx: "y \<noteq> x"
    and g: "georeferenced md0"
    and a: "assign23 (crop_ys y x) (crop_xs y x) (full [n', t', y, x] (Fin 0)) P' = Inr R2"
  obtains md2 where "unsquare_crop P' y x md0 = Inr (R2, md2)"
proof (cases "y < x")
  case True
  from georeferenced_grow_x[OF g] obtain md2 where
    "grow ''x1'' ''x2'' ''xpixelsize'' (int ((x - y) div 2)) md0 = Inr md2" by metis
  with True sh a have "unsquare_crop P' y x md0 = Inr (R2, md2)"
    by (simp add: unsquare_crop_def Let_def crop_ys_def crop_xs_def int_half_diff min_def)
  then show ?thesis by (rule that)
next
  case False
  with yx have lt: "x < y" by simp
  from georeferenced_grow_y[OF g] obtain md2 where
    "grow ''y1'' ''y2'' ''ypixelsize'' (int ((y - x) div 2)) md0 = Inr md2" by metis
  with lt sh a have "unsquare_crop P' y x md0 = Inr (R2, md2)"
    by (simp add: unsquare_crop_def Let_def crop_ys_def crop_xs_def int_half_diff min_def)
  then show ?thesis by (rule that)
qed

lemma crop_region:
  assumes "y \<noteq> x" "0 < y" "0 < x"
  shows "(slice_start y (crop_ys y x) \<le> q div x mod y
          \<and> q div x mod y < slice_start y (crop_ys y x) + slice_len y (crop_ys y x)
          \<and> slice_start x (crop_xs y x) \<le> q mod x
          \<and> q mod x < slice_start x (crop_xs y x) + slice_len x (crop_xs y x))
     \<longleftrightarrow> (if y < x then (x - y) div 2 \<le> q mod x \<and> q mod x < (x - y) div 2 + y
          else (y - x) div 2 \<le> q div x mod y \<and> q div x mod y < (y - x) div 2 + x)"
  using assms by (auto simp: crop_ys_def crop_xs_def)

text \<open>
  Claim C7: for every non-square field of rank 2, 3 or 4, cropping to a square and then
  inverting returns a field of the original shape that holds the values that survived the
  crop in the retained region and zero elsewhere.

  As stated this fails when a spatial extent is 1: the cropped field has shape (1, 1), the
  squeeze leaves an array of rank 0, and the inverse refuses it.
\<close>

theorem crop_then_inverse_fails_on_unit_spatial_axis:
  "(case square_domain \<lparr>shape = [1, 3], data = [Fin 1, Fin 2, Fin 3]\<rparr>
          [''x1'' \<mapsto> MNum 0, ''x2'' \<mapsto> MNum 3, ''y1'' \<mapsto> MNum 0, ''y2'' \<mapsto> MNum 1,
           ''xpixelsize'' \<mapsto> MNum 1, ''ypixelsize'' \<mapsto> MNum 1] ''crop'' False of
      Inr (Pair S md1) \<Rightarrow>
        map_sum id (\<lambda>r. shape (result_array r)) (square_domain S md1 ''crop'' True)
    | Inr (Bare S) \<Rightarrow> Inl TypeError
    | Inl e \<Rightarrow> Inl e) = Inl DimensionTooSmall"
  by code_simp

text \<open>
  Claim C7, amended: for every non-square field of rank 2, 3 or 4 whose spatial extents
  \<open>y\<close> and \<open>x\<close> are both at least 2 and whose metadata holds numeric bounds and pixel
  sizes, \<^verbatim>\<open>square_domain\<close> with "crop" succeeds, and the inverse applied to its result and
  metadata returns a field with the shape of the input without its axes of extent 1, whose
  two last extents are \<open>(y, x)\<close>. At the position \<open>q\<close> (row-major; column \<open>q mod x\<close>, row
  \<open>q div x mod y\<close>) it holds the input value when the column, respectively the row, lies
  in the band of \<open>min y x\<close> indices that starts at \<open>\<bar>x - y\<bar> div 2\<close>, and zero otherwise.
\<close>

theorem crop_then_inverse_backfills_zero:
  assumes wf: "wf_array R"
    and rank: "length (shape R) = 2 \<or> length (shape R) = 3 \<or> length (shape R) = 4"
    and y: "y = shape R ! (length (shape R) - 2)" and x: "x = shape R ! (length (shape R) - 1)"
    and yx: "y \<noteq> x" and y2: "2 \<le> y" and x2: "2 \<le> x" and g: "georeferenced md"
  shows "\<exists>S md1 R' md2. square_domain R md ''crop'' False = Inr (Pair S md1)
      \<and> md1 ''orig_domain'' = Some (MDom y x) \<and> md1 ''square_method'' = Some (MStr ''crop'')
      \<and> square_domain S md1 meth True = Inr (Pair R' md2)
      \<and> shape R' = shape (squeeze R)
      \<and> drop (length (shape R') - 2) (shape R') = [y, x]
      \<and> length (data R') = length (data R)
      \<and> (\<forall>q < length (data R). data R' ! q =
            (if (if y < x then (x - y) div 2 \<le> q mod x \<and> q mod x < (x - y) div 2 + y
                 else (y - x) div 2 \<le> q div x mod y \<and> q div x mod y < (y - x) div 2 + x)
             then data R ! q else Fin 0))"
proof -
  from rank obtain n t y' x' where pr: "promote R = Inr (R\<lparr>shape := [n, t, y', x']\<rparr>)"
    and fl: "filter (\<lambda>d. d \<noteq> 1) [n, t, y', x'] = filter (\<lambda>d. d \<noteq> 1) (shape R)"
    and pl: "prod_list (shape R) = n * t * y' * x'"
    and "y' = shape R ! (length (shape R) - 2)" "x' = shape R ! (length (shape R) - 1)"
    by (rule promote_shape_cases)
  with y x have [simp]: "y' = y" "x' = x" by simp_all
  define P where "P = R\<lparr>shape := [n, t, y, x]\<rparr>"
  have Ps: "shape P = [n, t, y, x]" and Pd: "data P = data R" by (simp_all add: P_def)
  have Rl: "length (data R) = n * t * y * x"
    using wf pl by (simp add: wf_array_def)
  define d where "d = min y x"
  from y2 x2 have d1: "d \<noteq> 1" unfolding d_def by simp
  define C where "C = sub23 (crop_ys y x) (crop_xs y x) P"
  have Cs: "shape C = [n, t, d, d]"
    unfolding C_def d_def using sub23_shape[OF Ps] yx by (simp add: crop_slice_len)
  from square_crop_core[OF Ps yx g] obtain md0 where
    sc: "square_crop P md = Inr (C, md0)" and g0: "georeferenced md0"
    unfolding C_def by metis
  define md1 where "md1 = md0(''orig_domain'' := Some (MDom y x), ''square_method'' := Some (MStr ''crop''))"
  have fwd: "square_domain R md ''crop'' False = Inr (Pair (squeeze C) md1)"
    using pr yx sc by (simp add: square_domain_def P_def[symmetric] Ps md1_def)
  from promote_squeeze[OF Cs d1 d1] obtain n' t' where
    pq: "promote (squeeze C) = Inr (C\<lparr>shape := [n', t', d, d]\<rparr>)"
    and nt: "n' * t' = n * t"
    and fnt: "filter (\<lambda>d. d \<noteq> 1) [n', t'] = filter (\<lambda>d. d \<noteq> 1) [n, t]"
    by metis
  define P' where "P' = C\<lparr>shape := [n', t', d, d]\<rparr>"
  have P's: "shape P' = [n', t', min y x, min y x]" and P'd: "data P' = data C"
    by (simp_all add: P'_def d_def)
  define Z where "Z = full [n', t', y, x] (Fin 0)"
  have Zs: "shape Z = [n', t', y, x]" and Zl: "length (data Z) = n * t * y * x"
    using nt by (simp_all add: Z_def)
  have P's': "shape P' = [n', t', slice_len y (crop_ys y x), slice_len x (crop_xs y x)]"
    using P's yx by (simp add: crop_slice_len)
  have P'd': "data P' = data (sub23 (crop_ys y x) (crop_xs y x) P)"
    by (simp add: P'd C_def)
  from assign23_sub23[OF Ps Zs Zl P's' P'd'] obtain R2 where
    a: "assign23 (crop_ys y x) (crop_xs y x) Z P' = Inr R2"
    and s2: "shape R2 = [n', t', y, x]" and l2: "length (data R2) = n * t * y * x"
    and el: "\<forall>q < n * t * y * x. data R2 ! q =
          (if slice_start y (crop_ys y x) \<le> q div x mod y
              \<and> q div x mod y < slice_start y (crop_ys y x) + slice_len y (crop_ys y x)
              \<and> slice_start x (crop_xs y x) \<le> q mod x
              \<and> q mod x < slice_start x (crop_xs y x) + slice_len x (crop_xs y x)
           then data P ! q else data Z ! q)"
    using Zs by auto
  define mdi where "mdi = md1(''square_method'' := None, ''orig_domain'' := None)"
  have gi: "georeferenced mdi"
    unfolding mdi_def md1_def using g0 by (simp add: georeferenced_def is_num_def)
  from unsquare_crop_core[OF P's yx gi a[unfolded Z_def]] obtain md2 where
    uc: "unsquare_crop P' y x mdi = Inr (R2, md2)" by metis
  have shq: "shape (squeeze R2) = shape (squeeze R)"
  proof -
    have "shape (squeeze R2) = filter (\<lambda>d. d \<noteq> 1) [n', t'] @ filter (\<lambda>d. d \<noteq> 1) [y, x]"
      by (simp add: s2)
    also have "\<dots> = filter (\<lambda>d. d \<noteq> 1) [n, t, y, x]"
      by (simp only: fnt filter_append[symmetric]) simp
    also have "\<dots> = shape (squeeze R)" using fl by simp
    finally show ?thesis .
  qed
  have "\<not> (shape P' ! 2 = y \<and> shape P' ! 3 = x)" using yx by (auto simp: P'_def d_def)
  moreover have "md_get md1 ''square_method'' = Inr (MStr ''crop'')"
    "md_get (md1(''square_method'' := None)) ''orig_domain'' = Inr (MDom y x)"
    by (simp_all add: md_get_def md1_def)
  moreover have "promote (squeeze C) = Inr P'" using pq by (simp add: P'_def)
  ultimately have inv: "square_domain (squeeze C) md1 meth True = Inr (Pair (squeeze R2) md2)"
    using uc
    by (simp add: square_domain_def orig_domain_of_def Let_def mdi_def[symmetric])
  have sp': "drop (length (shape (squeeze R2)) - 2) (shape (squeeze R2)) = [y, x]"
    unfolding shq using spatial_shape_kept[OF rank] y x y2 x2 by simp
  have pos: "0 < y" "0 < x" using y2 x2 by simp_all
  have el': "data (squeeze R2) ! q =
            (if (if y < x then (x - y) div 2 \<le> q mod x \<and> q mod x < (x - y) div 2 + y
                 else (y - x) div 2 \<le> q div x mod y \<and> q div x mod y < (y - x) div 2 + x)
             then data R ! q else Fin 0)" if "q < length (data R)" for q
  proof -
    from that have q: "q < n * t * y * x" by (simp add: Rl)
    with Zl have "q < length (data Z)" by simp
    then have "data Z ! q = Fin 0" unfolding Z_def full_data
      by (simp only: length_replicate nth_replicate)
    with el q show ?thesis
      by (simp add: crop_region[OF yx pos] Pd)
  qed
  from fwd inv shq sp' l2 el' show ?thesis
    by (auto simp: md1_def Rl)
qed

text \<open>
  A 2x5 field: the columns 1 and 2 survive the crop to 2x2; after the inverse the columns
  0, 3 and 4 hold zero.
\<close>

theorem crop_then_inverse_backfills_zero_witness:
  "\<exists>S md1 R' md2. square_domain \<lparr>shape = [2, 5], data = map Fin [1, 2, 3, 4, 5, 6, 7, 8, 9, 10]\<rparr>
        [''x1'' \<mapsto> MNum 0, ''x2'' \<mapsto> MNum 5, ''y1'' \<mapsto> MNum 0, ''y2'' \<mapsto> MNum 2,
         ''xpixelsize'' \<mapsto> MNum 1, ''ypixelsize'' \<mapsto> MNum 1] ''crop'' False = Inr (Pair S md1)
     \<and> square_domain S md1 ''crop'' True = Inr (Pair R' md2)
     \<and> shape R' = [2, 5]
     \<and> data R' ! 0 = Fin 0 \<and> data R' ! 1 = Fin 2 \<and> data R' ! 2 = Fin 3 \<and> data R' ! 3 = Fin 0"
proof -
  let ?A = "\<lparr>shape = [2, 5], data = map Fin [1, 2, 3, 4, 5, 6, 7, 8, 9, 10]\<rparr>"
  let ?md = "[''x1'' \<mapsto> MNum 0, ''x2'' \<mapsto> MNum 5, ''y1'' \<mapsto> MNum 0, ''y2'' \<mapsto> MNum 2,
         ''xpixelsize'' \<mapsto> MNum 1, ''ypixelsize'' \<mapsto> MNum (1::rat)]"
  have 1: "wf_array ?A" by (simp add: wf_array_def)
  have 2: "length (shape ?A) = 2 \<or> length (shape ?A) = 3 \<or> length (shape ?A) = 4" by simp
  have 3: "(2::nat) = shape ?A ! (length (shape ?A) - 2)" by simp
  have 4: "(5::nat) = shape ?A ! (length (shape ?A) - 1)" by simp
  have 5: "(2::nat) \<noteq> 5" "(2::nat) \<le> 2" "(2::nat) \<le> 5" by simp_all
  have 7: "georeferenced ?md" by (simp add: georeferenced_def is_num_def)
  from crop_then_inverse_backfills_zero[OF 1 2 3 4 5 7, of "''crop''"]
  obtain S md1 R' md2 where
    f: "square_domain ?A ?md ''crop'' False = Inr (Pair S md1)"
    and i: "square_domain S md1 ''crop'' True = Inr (Pair R' md2)"
    and s: "shape R' = shape (squeeze ?A)"
    and e: "\<forall>q < length (data ?A). data R' ! q =
            (if (if (2::nat) < 5 then (5 - 2) div 2 \<le> q mod 5 \<and> q mod 5 < (5 - 2) div 2 + 2
                 else (2 - 5) div 2 \<le> q div 5 mod 2 \<and> q div 5 mod 2 < (2 - 5) div 2 + 5)
             then data ?A ! q else Fin 0)"
    by blast
  from s have s': "shape R' = [2, 5]" by simp
  from e have "data R' ! 0 = Fin 0" "data R' ! 1 = Fin 2" "data R' ! 2 = Fin 3" "data R' ! 3 = Fin 0"
    by simp_all
  with f i s' show ?thesis by blast
qed

end
